theory Spec2Isabelle
  imports Main "HOL-Library.Extended_Nat" "HOL-Library.Multiset" "HOL-Library.Sublist"
begin

section \<open>Errors\<close>

text \<open>
  Every \<^verbatim>\<open>throw\<close> of the modelled sources is a value of this type.
  \<^item> \<open>TypeError\<close>: a property read on \<^verbatim>\<open>undefined\<close> (for instance \<^verbatim>\<open>profile.id\<close> when an
    array read was out of range);
  \<^item> \<open>NotInitialized\<close>: \<^verbatim>\<open>'HTTP Client not initialized. Call getInstance() first.'\<close>;
  \<^item> \<open>TransportError msg\<close>: whatever the CycleTLS client threw;
  \<^item> \<open>ChallengeFallback\<close>: \<^verbatim>\<open>'Cloudflare challenge - browser fallback required'\<close>;
  \<^item> \<open>RetriesExhausted\<close>: \<^verbatim>\<open>'Request failed after max retries'\<close>;
  \<^item> \<open>SessionIdNotSet\<close>: \<^verbatim>\<open>'Session ID is not set. Cannot refresh token.'\<close>;
  \<^item> \<open>RefreshFailed\<close>: \<^verbatim>\<open>'Failed to refresh token'\<close>;
  \<^item> \<open>NoCookie\<close>: \<^verbatim>\<open>'Please provide a cookie either in the .env file or ...'\<close>;
  \<^item> \<open>InitError msg\<close>: whatever \<^verbatim>\<open>SunoApi.init()\<close> rejected with.
\<close>

datatype error =
    TypeError
  | NotInitialized
  | TransportError string
  | ChallengeFallback
  | RetriesExhausted
  | SessionIdNotSet
  | RefreshFailed
  | NoCookie
  | InitError string

section \<open>Fingerprint profiles (src/lib/fingerprints/index.ts)\<close>

datatype platform = Android | Ios | Desktop

text \<open>
  \<^verbatim>\<open>interface FingerprintProfile\<close>. The field \<^verbatim>\<open>id\<close> is called \<open>profileId\<close> here
  (\<open>id\<close> is the identity function of HOL); the two \<^verbatim>\<open>Record<string, string>\<close> fields are
  association lists in the order the object literal lists the keys.
\<close>

record FingerprintProfile =
  profileId :: string
  name :: string
  platform :: platform
  userAgent :: string
  clientHints :: "(string \<times> string) list"
  ja3Fingerprint :: string
  http2Fingerprint :: string
  sunoHeaders :: "(string \<times> string) list"

definition ANDROID_JA3 :: string where
  "ANDROID_JA3 = ''771,4865-4866-4867-49195-49199-49196-49200-52393-52392-49171-49172-156-157-47-53,0-23-65281-10-11-35-16-5-13-18-51-45-43-27-17513,29-23-24,0''"

definition ANDROID_HTTP2 :: string where
  "ANDROID_HTTP2 = ''1:65536;2:0;4:6291456;6:262144|15663105|0|m,a,s,p''"

definition IOS_JA3 :: string where
  "IOS_JA3 = ''771,4865-4866-4867-49196-49195-52393-49200-49199-52392-49162-49161-49172-49171-157-156-53-47-49160-49170-10,65281-0-23-13-5-18-16-11-51-45-43-10-21,29-23-24-25,0''"

definition IOS_HTTP2 :: string where
  "IOS_HTTP2 = ''1:65536;3:100;4:2097152|10420225|0|m,s,a,p''"

definition ANDROID_SUNO_HEADERS :: "(string \<times> string) list" where
  "ANDROID_SUNO_HEADERS =
     [(''x-suno-client'', ''Android prerelease-4nt180t 1.0.42''),
      (''X-Requested-With'', ''com.suno.android''),
      (''Affiliate-Id'', ''undefined'')]"

definition IOS_SUNO_HEADERS :: "(string \<times> string) list" where
  "IOS_SUNO_HEADERS =
     [(''x-suno-client'', ''iOS 1.0.42''),
      (''X-Requested-With'', ''com.suno.ios''),
      (''Affiliate-Id'', ''undefined'')]"

text \<open>
  The client hints of the four Android profiles differ in the browser brand and the
  device model only; those of the two iOS profiles in the versions and the model.
\<close>

definition androidClientHints :: "string \<Rightarrow> string \<Rightarrow> (string \<times> string) list" where
  \<open>androidClientHints brand model =
     [(''sec-ch-ua'', ''"Chromium";v="130", "'' @ brand @ ''";v="130", "Not?A_Brand";v="99"''),
      (''sec-ch-ua-mobile'', ''?1''),
      (''sec-ch-ua-platform'', ''"Android"''),
      (''sec-ch-ua-platform-version'', ''"14.0.0"''),
      (''sec-ch-ua-full-version'', ''"130.0.6723.86"''),
      (''sec-ch-ua-full-version-list'',
         ''"Chromium";v="130.0.6723.86", "'' @ brand @ ''";v="130.0.6723.86", "Not?A_Brand";v="99.0.0.0"''),
      (''sec-ch-ua-model'', ''"'' @ model @ ''"''),
      (''sec-ch-ua-arch'', ''""''),
      (''sec-ch-ua-bitness'', ''""'')]\<close>

definition iosClientHints :: "string \<Rightarrow> string \<Rightarrow> string \<Rightarrow> (string \<times> string) list" where
  \<open>iosClientHints platformVersion fullVersion model =
     [(''sec-ch-ua'', ''"Not A(Brand";v="99", "Safari";v="17"''),
      (''sec-ch-ua-mobile'', ''?1''),
      (''sec-ch-ua-platform'', ''"iOS"''),
      (''sec-ch-ua-platform-version'', ''"'' @ platformVersion @ ''"''),
      (''sec-ch-ua-full-version'', ''"'' @ fullVersion @ ''"''),
      (''sec-ch-ua-model'', ''"'' @ model @ ''"''),
      (''sec-ch-ua-arch'', ''""''),
      (''sec-ch-ua-bitness'', ''""'')]\<close>

definition PIXEL_8_CHROME_130 :: FingerprintProfile where
  "PIXEL_8_CHROME_130 =
     \<lparr> profileId = ''pixel8-chrome130'',
       name = ''Google Pixel 8 - Chrome 130'',
       platform = Android,
       userAgent = ''Mozilla/5.0 (Linux; Android 14; Pixel 8 Build/UQ1A.240105.004) AppleWebKit/537.36 (KHTML, like Gecko) Version/4.0 Chrome/130.0.6723.86 Mobile Safari/537.36'',
       clientHints = androidClientHints ''Android WebView'' ''Pixel 8'',
       ja3Fingerprint = ANDROID_JA3,
       http2Fingerprint = ANDROID_HTTP2,
       sunoHeaders = ANDROID_SUNO_HEADERS \<rparr>"

definition GALAXY_S24_CHROME_130 :: FingerprintProfile where
  "GALAXY_S24_CHROME_130 =
     \<lparr> profileId = ''galaxy-s24-chrome130'',
       name = ''Samsung Galaxy S24 Ultra - Chrome 130'',
       platform = Android,
       userAgent = ''Mozilla/5.0 (Linux; Android 14; SM-S928B Build/UP1A.231005.007) AppleWebKit/537.36 (KHTML, like Gecko) Chrome/130.0.6723.86 Mobile Safari/537.36'',
       clientHints = androidClientHints ''Google Chrome'' ''SM-S928B'',
       ja3Fingerprint = ANDROID_JA3,
       http2Fingerprint = ANDROID_HTTP2,
       sunoHeaders = ANDROID_SUNO_HEADERS \<rparr>"

definition ONEPLUS_12_CHROME_130 :: FingerprintProfile where
  "ONEPLUS_12_CHROME_130 =
     \<lparr> profileId = ''oneplus12-chrome130'',
       name = ''OnePlus 12 - Chrome 130'',
       platform = Android,
       userAgent = ''Mozilla/5.0 (Linux; Android 14; CPH2573 Build/UKQ1.230924.001) AppleWebKit/537.36 (KHTML, like Gecko) Chrome/130.0.6723.86 Mobile Safari/537.36'',
       clientHints = androidClientHints ''Google Chrome'' ''CPH2573'',
       ja3Fingerprint = ANDROID_JA3,
       http2Fingerprint = ANDROID_HTTP2,
       sunoHeaders = ANDROID_SUNO_HEADERS \<rparr>"

definition XIAOMI_14_CHROME_130 :: FingerprintProfile where
  "XIAOMI_14_CHROME_130 =
     \<lparr> profileId = ''xiaomi14-chrome130'',
       name = ''Xiaomi 14 Pro - Chrome 130'',
       platform = Android,
       userAgent = ''Mozilla/5.0 (Linux; Android 14; 23116PN5BC Build/UKQ1.231003.002) AppleWebKit/537.36 (KHTML, like Gecko) Chrome/130.0.6723.86 Mobile Safari/537.36'',
       clientHints = androidClientHints ''Google Chrome'' ''23116PN5BC'',
       ja3Fingerprint = ANDROID_JA3,
       http2Fingerprint = ANDROID_HTTP2,
       sunoHeaders = ANDROID_SUNO_HEADERS \<rparr>"

definition IPHONE_15_SAFARI_17 :: FingerprintProfile where
  "IPHONE_15_SAFARI_17 =
     \<lparr> profileId = ''iphone15-safari17'',
       name = ''iPhone 15 Pro - Safari 17'',
       platform = Ios,
       userAgent = ''Mozilla/5.0 (iPhone; CPU iPhone OS 17_2 like Mac OS X) AppleWebKit/605.1.15 (KHTML, like Gecko) Version/17.2 Mobile/15E148 Safari/604.1'',
       clientHints = iosClientHints ''17.2.0'' ''17.2'' ''iPhone15,3'',
       ja3Fingerprint = IOS_JA3,
       http2Fingerprint = IOS_HTTP2,
       sunoHeaders = IOS_SUNO_HEADERS \<rparr>"

definition IPHONE_14_SAFARI_17 :: FingerprintProfile where
  "IPHONE_14_SAFARI_17 =
     \<lparr> profileId = ''iphone14-safari17'',
       name = ''iPhone 14 Pro Max - Safari 17'',
       platform = Ios,
       userAgent = ''Mozilla/5.0 (iPhone; CPU iPhone OS 17_1_2 like Mac OS X) AppleWebKit/605.1.15 (KHTML, like Gecko) Version/17.1.2 Mobile/15E148 Safari/604.1'',
       clientHints = iosClientHints ''17.1.2'' ''17.1.2'' ''iPhone14,8'',
       ja3Fingerprint = IOS_JA3,
       http2Fingerprint = IOS_HTTP2,
       sunoHeaders = IOS_SUNO_HEADERS \<rparr>"

definition FINGERPRINT_PROFILES :: "FingerprintProfile list" where
  "FINGERPRINT_PROFILES =
     [PIXEL_8_CHROME_130, GALAXY_S24_CHROME_130, ONEPLUS_12_CHROME_130,
      XIAOMI_14_CHROME_130, IPHONE_15_SAFARI_17, IPHONE_14_SAFARI_17]"

definition DEFAULT_PROFILE :: FingerprintProfile where
  "DEFAULT_PROFILE = PIXEL_8_CHROME_130"

section \<open>FingerprintManager\<close>

datatype RotationStrategy = RoundRobin | Random | LeastUsed | PlatformSticky

text \<open>
  \<^verbatim>\<open>interface ProfileRotationState\<close>. \<open>currentIndex\<close> starts at 0 and is only ever
  incremented, so it is a natural number (the source's number is a double: the model is
  exact below \<open>2^53\<close> increments). \<open>lastRotation\<close> is an epoch time in milliseconds.
\<close>

record ProfileRotationState =
  currentIndex :: nat
  usageCount :: "string \<rightharpoonup> nat"
  lastRotation :: nat
  blockedProfiles :: "string set"

text \<open>
  The private fields of \<^verbatim>\<open>class FingerprintManager\<close>. The source restricts
  \<open>preferredPlatform\<close> to \<^verbatim>\<open>'android' | 'ios' | null\<close>; \<open>None\<close> is \<^verbatim>\<open>null\<close>.
\<close>

record FingerprintManager =
  profiles :: "FingerprintProfile list"
  state :: ProfileRotationState
  strategy :: RotationStrategy
  preferredPlatform :: "platform option"

text \<open>
  The constructor: each option falls back to its default (\<^verbatim>\<open>??\<close>), the usage count
  of every catalog id is set to 0 in catalog order. \<open>now\<close> is the reading of
  \<^verbatim>\<open>Date.now()\<close>.
\<close>

definition newFingerprintManager ::
  "RotationStrategy option \<Rightarrow> platform option \<Rightarrow> FingerprintProfile list option \<Rightarrow> nat
     \<Rightarrow> FingerprintManager" where
  "newFingerprintManager strategyOpt preferredOpt customProfiles now =
     (let ps = (case customProfiles of None \<Rightarrow> FINGERPRINT_PROFILES | Some c \<Rightarrow> c) in
      \<lparr> profiles = ps,
        state = \<lparr> currentIndex = 0,
                  usageCount = foldl (\<lambda>u p. u(profileId p \<mapsto> 0)) Map.empty ps,
                  lastRotation = now,
                  blockedProfiles = {} \<rparr>,
        strategy = (case strategyOpt of None \<Rightarrow> RoundRobin | Some s \<Rightarrow> s),
        preferredPlatform = preferredOpt \<rparr>)"

text \<open>
  \<^verbatim>\<open>xs[i]\<close> of JavaScript: \<^verbatim>\<open>undefined\<close> (here \<open>None\<close>) out of range. The index
  \<^verbatim>\<open>n % 0\<close> is \<^verbatim>\<open>NaN\<close> in the source and \<open>n\<close> in HOL; both read \<^verbatim>\<open>undefined\<close> from
  the empty array.
\<close>

definition js_index :: "'a list \<Rightarrow> nat \<Rightarrow> 'a option" where
  "js_index xs i = (if i < length xs then Some (xs ! i) else None)"

definition clearBlocked :: "FingerprintManager \<Rightarrow> FingerprintManager" where
  "clearBlocked m = m\<lparr>state := (state m)\<lparr>blockedProfiles := {}\<rparr>\<rparr>"

definition getAvailableProfiles :: "FingerprintManager \<Rightarrow> FingerprintProfile list" where
  "getAvailableProfiles m =
     (let available = filter (\<lambda>p. profileId p \<notin> blockedProfiles (state m)) (profiles m) in
      case preferredPlatform m of
        None \<Rightarrow> available
      | Some pp \<Rightarrow>
          (let platformFiltered = filter (\<lambda>p. platform p = pp) available in
           if length platformFiltered > 0 then platformFiltered else available))"

definition getCurrentProfile :: "FingerprintManager \<Rightarrow> FingerprintProfile option \<times> FingerprintManager" where
  "getCurrentProfile m =
     (let availableProfiles = getAvailableProfiles m in
      if length availableProfiles = 0 then (Some DEFAULT_PROFILE, clearBlocked m)
      else (js_index availableProfiles (currentIndex (state m) mod length availableProfiles), m))"

text \<open>
  \<^verbatim>\<open>this.state.usageCount.get(profile.id) ?? 0\<close>.
\<close>

definition usageOf :: "(string \<rightharpoonup> nat) \<Rightarrow> FingerprintProfile \<Rightarrow> nat" where
  "usageOf u p = (case u (profileId p) of None \<Rightarrow> 0 | Some c \<Rightarrow> c)"

text \<open>
  The \<^verbatim>\<open>for\<close> loop of \<^verbatim>\<open>getLeastUsedProfile\<close> over the pair
  (\<^verbatim>\<open>minUsage\<close>, \<^verbatim>\<open>leastUsed\<close>); \<^verbatim>\<open>minUsage\<close> starts at \<^verbatim>\<open>Infinity\<close> and
  \<^verbatim>\<open>leastUsed\<close> at \<^verbatim>\<open>profiles[0]\<close>.
\<close>

fun leastUsedLoop ::
  "(string \<rightharpoonup> nat) \<Rightarrow> FingerprintProfile list \<Rightarrow> enat \<Rightarrow> FingerprintProfile option
     \<Rightarrow> FingerprintProfile option" where
  "leastUsedLoop u [] minUsage leastUsed = leastUsed"
| "leastUsedLoop u (p # ps) minUsage leastUsed =
     (let usage = usageOf u p in
      if enat usage < minUsage then leastUsedLoop u ps (enat usage) (Some p)
      else leastUsedLoop u ps minUsage leastUsed)"

definition getLeastUsedProfile ::
  "ProfileRotationState \<Rightarrow> FingerprintProfile list \<Rightarrow> FingerprintProfile option" where
  "getLeastUsedProfile s ps = leastUsedLoop (usageCount s) ps \<infinity> (js_index ps 0)"

definition getPlatformStickyProfile ::
  "ProfileRotationState \<Rightarrow> FingerprintProfile list
     \<Rightarrow> FingerprintProfile option \<times> ProfileRotationState" where
  "getPlatformStickyProfile s ps =
     (let currentProfile = js_index ps (currentIndex s mod length ps);
          currentPlatform = (case currentProfile of None \<Rightarrow> Android | Some p \<Rightarrow> platform p);
          samePlatform = filter (\<lambda>p. platform p = currentPlatform) ps;
          s' = s\<lparr>currentIndex := currentIndex s + 1\<rparr>
      in if length samePlatform > 0
         then (js_index samePlatform (currentIndex s' mod length samePlatform), s')
         else (js_index ps (currentIndex s' mod length ps), s'))"

text \<open>
  The \<^verbatim>\<open>switch\<close> of \<^verbatim>\<open>getNextProfile\<close>. \<open>rnd\<close> stands for the draw of
  \<^verbatim>\<open>Math.random()\<close>: the source reads index \<^verbatim>\<open>Math.floor(Math.random() * n)\<close>, which is
  some index below \<open>n\<close>, and every such index can be drawn; the model reads index
  \<open>rnd mod n\<close> for an arbitrary natural number \<open>rnd\<close>.
\<close>

definition selectProfile ::
  "nat \<Rightarrow> RotationStrategy \<Rightarrow> ProfileRotationState \<Rightarrow> FingerprintProfile list
     \<Rightarrow> FingerprintProfile option \<times> ProfileRotationState" where
  "selectProfile rnd strat s availableProfiles =
     (case strat of
        Random \<Rightarrow> (js_index availableProfiles (rnd mod length availableProfiles), s)
      | LeastUsed \<Rightarrow> (getLeastUsedProfile s availableProfiles, s)
      | PlatformSticky \<Rightarrow> getPlatformStickyProfile s availableProfiles
      | RoundRobin \<Rightarrow>
          (let s' = s\<lparr>currentIndex := currentIndex s + 1\<rparr> in
           (js_index availableProfiles (currentIndex s' mod length availableProfiles), s')))"

text \<open>
  The tail of \<^verbatim>\<open>getNextProfile\<close>: the usage count of the chosen profile is incremented
  and the rotation is timestamped. Reading \<^verbatim>\<open>profile.id\<close> of \<^verbatim>\<open>undefined\<close> throws.
\<close>

definition recordUsage ::
  "nat \<Rightarrow> FingerprintManager \<Rightarrow> FingerprintProfile option \<times> ProfileRotationState
     \<Rightarrow> (error + FingerprintProfile) \<times> FingerprintManager" where
  "recordUsage now m sel =
     (case sel of
        (None, s) \<Rightarrow> (Inl TypeError, m\<lparr>state := s\<rparr>)
      | (Some profile, s) \<Rightarrow>
          (let currentCount = usageOf (usageCount s) profile in
           (Inr profile,
            m\<lparr>state := s\<lparr>usageCount := (usageCount s)(profileId profile \<mapsto> currentCount + 1),
                          lastRotation := now\<rparr>\<rparr>)))"

text \<open>
  \<^verbatim>\<open>getNextProfile\<close> calls itself after clearing the blocked set when no profile is
  available. With an empty catalog that recursion never ends, so the function is partial:
  \<open>None\<close> is "does not return".
\<close>

partial_function (option) getNextProfile ::
  "nat \<Rightarrow> nat \<Rightarrow> FingerprintManager \<Rightarrow> ((error + FingerprintProfile) \<times> FingerprintManager) option" where
  "getNextProfile now rnd m =
     (if length (getAvailableProfiles m) = 0 then getNextProfile now rnd (clearBlocked m)
      else Some (recordUsage now m
                   (selectProfile rnd (strategy m) (state m) (getAvailableProfiles m))))"

definition blockProfile :: "string \<Rightarrow> FingerprintManager \<Rightarrow> FingerprintManager" where
  "blockProfile pid m = m\<lparr>state := (state m)\<lparr>blockedProfiles := insert pid (blockedProfiles (state m))\<rparr>\<rparr>"

definition unblockProfile :: "string \<Rightarrow> FingerprintManager \<Rightarrow> FingerprintManager" where
  "unblockProfile pid m = m\<lparr>state := (state m)\<lparr>blockedProfiles := blockedProfiles (state m) - {pid}\<rparr>\<rparr>"

definition resetBlockedProfiles :: "FingerprintManager \<Rightarrow> FingerprintManager" where
  "resetBlockedProfiles m = clearBlocked m"

definition setStrategy :: "RotationStrategy \<Rightarrow> FingerprintManager \<Rightarrow> FingerprintManager" where
  "setStrategy s m = m\<lparr>strategy := s\<rparr>"

section \<open>Session state and tokens (src/lib/suno/AuthService.ts)\<close>

text \<open>
  \<^verbatim>\<open>interface TokenInfo\<close> and \<^verbatim>\<open>interface SessionState\<close> (types.ts). Times are epoch
  milliseconds, modelled as integers (the source's numbers are doubles: the model is
  exact for integral values below \<open>2^53\<close>). An optional field is an \<open>option\<close>.
\<close>

record TokenInfo =
  jwt :: string
  expiresAt :: int

record SessionState =
  sid :: "string option"
  currentToken :: "string option"
  tokenInfo :: "TokenInfo option"
  deviceId :: string
  cookies :: "string \<rightharpoonup> string"

text \<open>
  \<^verbatim>\<open>isTokenValid(bufferMs = 60000)\<close>; \<open>now\<close> is the reading of \<^verbatim>\<open>Date.now()\<close>.
\<close>

definition isTokenValid :: "int \<Rightarrow> int \<Rightarrow> SessionState \<Rightarrow> bool" where
  "isTokenValid now bufferMs st =
     (case tokenInfo st of
        None \<Rightarrow> False
      | Some ti \<Rightarrow> now < expiresAt ti - bufferMs)"

text \<open>
  What \<^verbatim>\<open>jwtDecode(token, { complete: false })\<close> can do: throw, return \<^verbatim>\<open>null\<close>, or
  return a payload whose \<^verbatim>\<open>exp\<close> claim is a number or is missing.
\<close>

datatype decoded = DecodeThrows | DecodedNull | DecodedPayload "int option"

text \<open>
  The \<^verbatim>\<open>try { ... if (decoded?.exp) { this.state.tokenInfo = ... } } catch { }\<close> block
  that \<^verbatim>\<open>refreshToken\<close> and \<^verbatim>\<open>setToken\<close> both contain: \<open>tokenInfo\<close> is assigned only
  when the payload has a truthy \<^verbatim>\<open>exp\<close> (a number other than 0).
\<close>

definition trackExpiry :: "(string \<Rightarrow> decoded) \<Rightarrow> string \<Rightarrow> SessionState \<Rightarrow> SessionState" where
  "trackExpiry jwtDecode token st =
     (case jwtDecode token of
        DecodeThrows \<Rightarrow> st
      | DecodedNull \<Rightarrow> st
      | DecodedPayload None \<Rightarrow> st
      | DecodedPayload (Some expClaim) \<Rightarrow>
          if expClaim \<noteq> 0
          then st\<lparr>tokenInfo := Some \<lparr> jwt = token, expiresAt = expClaim * 1000 \<rparr>\<rparr>
          else st)"

definition setToken :: "(string \<Rightarrow> decoded) \<Rightarrow> string \<Rightarrow> SessionState \<Rightarrow> SessionState" where
  "setToken jwtDecode token st = trackExpiry jwtDecode token (st\<lparr>currentToken := Some token\<rparr>)"

text \<open>
  The fields of \<^verbatim>\<open>class AuthService\<close> that \<^verbatim>\<open>refreshToken\<close> touches: the session
  state, whether an \<^verbatim>\<open>onTokenRefresh\<close> callback is registered, the tokens the callback
  was called with, and how many times the token endpoint was posted to.
\<close>

record AuthService =
  session :: SessionState
  onTokenRefresh :: bool
  notified :: "string list"
  fetches :: nat

text \<open>
  \<^verbatim>\<open>refreshToken(force = false)\<close>. \<open>post n\<close> is the outcome of the \<open>n\<close>-th POST (from 0)
  to the token endpoint: the request throws, or it answers and \<^verbatim>\<open>response.body?.jwt\<close>
  is a string or is missing. The result is the returned token
  (\<^verbatim>\<open>this.state.currentToken!\<close> on the early return, which is whatever the field holds).
\<close>

definition refreshToken ::
  "(string \<Rightarrow> decoded) \<Rightarrow> (nat \<Rightarrow> error + string option) \<Rightarrow> bool \<Rightarrow> int \<Rightarrow> AuthService
     \<Rightarrow> (error + string option) \<times> AuthService" where
  "refreshToken jwtDecode post force now a =
     (if \<not> force \<and> isTokenValid now 60000 (session a) then (Inr (currentToken (session a)), a)
      else if (case sid (session a) of None \<Rightarrow> True | Some s \<Rightarrow> s = []) then (Inl SessionIdNotSet, a)
      else
        (let a1 = a\<lparr>fetches := fetches a + 1\<rparr> in
         case post (fetches a) of
           Inl e \<Rightarrow> (Inl e, a1)
         | Inr None \<Rightarrow> (Inl RefreshFailed, a1)
         | Inr (Some newToken) \<Rightarrow>
             if newToken = [] then (Inl RefreshFailed, a1)
             else
               (let a2 = a1\<lparr>session := trackExpiry jwtDecode newToken
                                          ((session a1)\<lparr>currentToken := Some newToken\<rparr>)\<rparr>;
                    a3 = (if onTokenRefresh a2 then a2\<lparr>notified := notified a2 @ [newToken]\<rparr>
                          else a2)
                in (Inr (Some newToken), a3))))"

section \<open>HTTP client (class HttpClient)\<close>

text \<open>
  \<^verbatim>\<open>interface HttpResponse<T = any>\<close>. A body is a string or some other JavaScript value;
  \<open>'j\<close> is the type of the values that are not strings. The \<^verbatim>\<open>cookies\<close> field (the
  parsed \<^verbatim>\<open>Set-Cookie\<close> header) is read by none of the functions modelled here and is left
  out, as are the request's URL, method, headers and body, which are the same at every
  attempt of one \<^verbatim>\<open>requestWithRetry\<close> call.
\<close>

datatype 'j body = StringBody string | ValueBody 'j

record 'j HttpResponse =
  status :: int
  body :: "'j body"
  headers :: "string \<rightharpoonup> string"

text \<open>
  \<^verbatim>\<open>String.prototype.toLowerCase\<close> on the ASCII letters and \<^verbatim>\<open>String.prototype.includes\<close>.
  No character outside ASCII lower-cases to a letter of \<^verbatim>\<open>cloudflare\<close>, the only word
  searched for after lower-casing.
\<close>

definition lowerChar :: "char \<Rightarrow> char" where
  "lowerChar c =
     (case map_of (zip ''ABCDEFGHIJKLMNOPQRSTUVWXYZ'' ''abcdefghijklmnopqrstuvwxyz'') c of
        None \<Rightarrow> c
      | Some l \<Rightarrow> l)"

definition toLowerCase :: "string \<Rightarrow> string" where
  "toLowerCase s = map lowerChar s"

fun str_includes :: "string \<Rightarrow> string \<Rightarrow> bool" where
  "str_includes [] needle = (needle = [])"
| "str_includes (c # cs) needle = (prefix needle (c # cs) \<or> str_includes cs needle)"

text \<open>
  \<^verbatim>\<open>isCloudflareChallenge\<close>. A header value is truthy when it is defined and not the
  empty string. \<open>stringify\<close> is \<^verbatim>\<open>JSON.stringify\<close> on the values that are not strings;
  it returns \<^verbatim>\<open>undefined\<close> (here \<open>None\<close>) for \<^verbatim>\<open>undefined\<close>, a function or a symbol, and
  \<^verbatim>\<open>bodyStr.includes\<close> then throws.
\<close>

definition isCloudflareChallenge :: "('j \<Rightarrow> string option) \<Rightarrow> 'j HttpResponse \<Rightarrow> error + bool" where
  "isCloudflareChallenge stringify response =
     (if status response = 403 \<or> status response = 503 then
        (let cfRay = headers response ''cf-ray'';
             server = headers response ''server''
         in if (case cfRay of None \<Rightarrow> False | Some v \<Rightarrow> v \<noteq> [])
               \<or> (case server of None \<Rightarrow> False
                   | Some s \<Rightarrow> str_includes (toLowerCase s) ''cloudflare'')
            then Inr True
            else (case (case body response of
                          StringBody s \<Rightarrow> Some s
                        | ValueBody v \<Rightarrow> stringify v) of
                    None \<Rightarrow> Inl TypeError
                  | Some bodyStr \<Rightarrow>
                      if str_includes bodyStr ''challenge-platform''
                         \<or> str_includes bodyStr ''cf-browser-verification''
                         \<or> str_includes bodyStr ''Just a moment''
                      then Inr True
                      else Inr False))
      else Inr False)"

text \<open>
  The two fields of \<^verbatim>\<open>HttpClientConfig\<close> that the modelled methods read.
\<close>

record HttpClientConfig =
  rotateFingerprints :: bool
  maxRetries :: int

text \<open>
  What the pino logger is given, in order: one constructor per logging call of the
  modelled methods, carrying the values interpolated into the message.
\<close>

datatype log_entry =
    DebugRequest string
  | ErrorRequestFailed error
  | InfoRotated string
  | WarnChallenge nat int
  | ErrorAttemptFailed nat int error

text \<open>
  The fields of \<^verbatim>\<open>class HttpClient\<close>: \<open>client\<close> says whether the CycleTLS handle is set
  (not \<^verbatim>\<open>null\<close>), \<open>fingerprintManager\<close> is the manager the client holds. The last four
  fields record the client's dealings with the outside: how many times the CycleTLS
  client was called, how many times the manager was asked for the next profile, what was
  logged, and the delays slept (milliseconds).
\<close>

record HttpClient =
  client :: bool
  fingerprintManager :: FingerprintManager
  currentProfile :: FingerprintProfile
  config :: HttpClientConfig
  calls :: nat
  draws :: nat
  logged :: "log_entry list"
  slept :: "nat list"

text \<open>
  The outside world: \<open>transport n p\<close> is what the \<open>n\<close>-th call (from 0) of the CycleTLS
  client does when the request is sent under profile \<open>p\<close> (it throws, or it answers),
  \<open>dateNow n\<close> and \<open>mathRandom n\<close> are the readings of \<^verbatim>\<open>Date.now()\<close> and
  \<^verbatim>\<open>Math.random()\<close> at the \<open>n\<close>-th rotation, \<open>jsonParse\<close> is \<^verbatim>\<open>JSON.parse\<close>
  (\<open>None\<close>: it throws) and \<open>jsonStringify\<close> is \<^verbatim>\<open>JSON.stringify\<close> (\<open>None\<close>: it returns
  \<^verbatim>\<open>undefined\<close>).
\<close>

record 'j env =
  transport :: "nat \<Rightarrow> FingerprintProfile \<Rightarrow> error + 'j HttpResponse"
  dateNow :: "nat \<Rightarrow> nat"
  mathRandom :: "nat \<Rightarrow> nat"
  jsonParse :: "string \<Rightarrow> 'j body option"
  jsonStringify :: "'j \<Rightarrow> string option"

text \<open>
  The constructor of \<^verbatim>\<open>HttpClient\<close> as far as the modelled fields go. The manager is the
  one \<^verbatim>\<open>getFingerprintManager\<close> hands out: a process-wide singleton, which may have been
  created earlier, with a custom catalog, and used. The constructor leaves the CycleTLS
  handle unset (\<^verbatim>\<open>getInstance\<close> sets it afterwards) and assigns
  \<^verbatim>\<open>this.currentProfile = this.fingerprintManager.getCurrentProfile()\<close>. Were that
  \<^verbatim>\<open>undefined\<close>, the first read of a property of \<^verbatim>\<open>currentProfile\<close> would throw; the
  model reports it here.
\<close>

definition newHttpClient :: "HttpClientConfig \<Rightarrow> FingerprintManager \<Rightarrow> (error + HttpClient)" where
  "newHttpClient cfg m =
     (case getCurrentProfile m of
        (None, m') \<Rightarrow> Inl TypeError
      | (Some p, m') \<Rightarrow>
          Inr \<lparr> client = False, fingerprintManager = m', currentProfile = p, config = cfg,
                calls = 0, draws = 0, logged = [], slept = [] \<rparr>)"

text \<open>
  \<^verbatim>\<open>this.fingerprintManager.getNextProfile()\<close> as the client calls it.
\<close>

definition managerNext ::
  "'j env \<Rightarrow> HttpClient \<Rightarrow> ((error + FingerprintProfile) \<times> HttpClient) option" where
  "managerNext env c =
     (case getNextProfile (dateNow env (draws c)) (mathRandom env (draws c)) (fingerprintManager c) of
        None \<Rightarrow> None
      | Some (r, m') \<Rightarrow> Some (r, c\<lparr>fingerprintManager := m', draws := draws c + 1\<rparr>))"

definition rotateFingerprint ::
  "'j env \<Rightarrow> HttpClient \<Rightarrow> ((error + FingerprintProfile) \<times> HttpClient) option" where
  "rotateFingerprint env c =
     (case managerNext env c of
        None \<Rightarrow> None
      | Some (Inl e, c') \<Rightarrow> Some (Inl e, c')
      | Some (Inr p, c') \<Rightarrow>
          Some (Inr p, c'\<lparr>currentProfile := p, logged := logged c' @ [InfoRotated (name p)]\<rparr>))"

definition blockCurrentProfile ::
  "'j env \<Rightarrow> HttpClient \<Rightarrow> ((error + FingerprintProfile) \<times> HttpClient) option" where
  "blockCurrentProfile env c =
     rotateFingerprint env
       (c\<lparr>fingerprintManager := blockProfile (profileId (currentProfile c)) (fingerprintManager c)\<rparr>)"

text \<open>
  The body parsing of \<^verbatim>\<open>request\<close>: a string body is replaced by its JSON value when it
  parses, and kept when \<^verbatim>\<open>JSON.parse\<close> throws.
\<close>

definition parseBody :: "'j env \<Rightarrow> 'j body \<Rightarrow> 'j body" where
  "parseBody env b =
     (case b of
        StringBody s \<Rightarrow> (case jsonParse env s of None \<Rightarrow> StringBody s | Some v \<Rightarrow> v)
      | ValueBody v \<Rightarrow> ValueBody v)"

definition request :: "'j env \<Rightarrow> HttpClient \<Rightarrow> ((error + 'j HttpResponse) \<times> HttpClient) option" where
  "request env c =
     (if \<not> client c then Some (Inl NotInitialized, c)
      else
        (case (if rotateFingerprints (config c)
               then (case managerNext env c of
                       None \<Rightarrow> None
                     | Some (Inl e, c') \<Rightarrow> Some (Inl e, c')
                     | Some (Inr p, c') \<Rightarrow> Some (Inr p, c'\<lparr>currentProfile := p\<rparr>))
               else Some (Inr (currentProfile c), c)) of
           None \<Rightarrow> None
         | Some (Inl e, c1) \<Rightarrow> Some (Inl e, c1)
         | Some (Inr p, c1) \<Rightarrow>
             (let c2 = c1\<lparr>logged := logged c1 @ [DebugRequest (profileId p)],
                          calls := calls c1 + 1\<rparr>
              in case transport env (calls c1) p of
                   Inl e \<Rightarrow> Some (Inl e, c2\<lparr>logged := logged c2 @ [ErrorRequestFailed e]\<rparr>)
                 | Inr response \<Rightarrow>
                     Some (Inr (response\<lparr>body := parseBody env (body response)\<rparr>), c2))))"

definition sleep :: "nat \<Rightarrow> HttpClient \<Rightarrow> HttpClient" where
  "sleep ms c = c\<lparr>slept := slept c @ [ms]\<rparr>"

text \<open>
  One pass through the body of the \<^verbatim>\<open>for\<close> loop of \<^verbatim>\<open>requestWithRetry\<close> ends in one
  of three ways: the function returns a response, the loop goes on to the next attempt
  (with the value \<^verbatim>\<open>lastError\<close> then has), or an error leaves the function (thrown
  inside the \<^verbatim>\<open>catch\<close> block).
\<close>

datatype 'j flow = Return "'j HttpResponse" | Continue "error option" | Throw error

text \<open>
  The \<^verbatim>\<open>catch\<close> block, entered with the error thrown in the \<^verbatim>\<open>try\<close> block.
\<close>

definition catchBlock ::
  "'j env \<Rightarrow> int \<Rightarrow> nat \<Rightarrow> error \<Rightarrow> HttpClient \<Rightarrow> ('j flow \<times> HttpClient) option" where
  "catchBlock env retries attempt e c =
     (let c1 = c\<lparr>logged := logged c @ [ErrorAttemptFailed attempt retries e]\<rparr> in
      if int attempt < retries then
        (case rotateFingerprint env c1 of
           None \<Rightarrow> None
         | Some (Inl e', c2) \<Rightarrow> Some (Throw e', c2)
         | Some (Inr p, c2) \<Rightarrow> Some (Continue (Some e), sleep (2 ^ attempt * 1000) c2))
      else Some (Continue (Some e), c1))"

text \<open>
  The \<^verbatim>\<open>try\<close> block followed by the \<^verbatim>\<open>catch\<close> block. The
  \<^verbatim>\<open>throw new Error('Cloudflare challenge - browser fallback required')\<close> stands inside
  the \<^verbatim>\<open>try\<close> block, so it is caught by the \<^verbatim>\<open>catch\<close> block like any other error.
\<close>

definition attemptOnce ::
  "'j env \<Rightarrow> int \<Rightarrow> nat \<Rightarrow> error option \<Rightarrow> HttpClient \<Rightarrow> ('j flow \<times> HttpClient) option" where
  "attemptOnce env retries attempt lastError c =
     (case request env c of
        None \<Rightarrow> None
      | Some (Inl e, c1) \<Rightarrow> catchBlock env retries attempt e c1
      | Some (Inr response, c1) \<Rightarrow>
          (case isCloudflareChallenge (jsonStringify env) response of
             Inl e \<Rightarrow> catchBlock env retries attempt e c1
           | Inr True \<Rightarrow>
               (let c2 = c1\<lparr>logged := logged c1 @ [WarnChallenge attempt retries]\<rparr> in
                case blockCurrentProfile env c2 of
                  None \<Rightarrow> None
                | Some (Inl e, c3) \<Rightarrow> catchBlock env retries attempt e c3
                | Some (Inr p, c3) \<Rightarrow>
                    if int attempt < retries
                    then Some (Continue lastError, sleep (2 ^ attempt * 1000) c3)
                    else catchBlock env retries attempt ChallengeFallback c3)
           | Inr False \<Rightarrow> Some (Return response, c1)))"

text \<open>
  The \<^verbatim>\<open>for (let attempt = 1; attempt <= retries; attempt++)\<close> loop and the
  \<^verbatim>\<open>throw lastError || new Error('Request failed after max retries')\<close> after it. The
  model follows one call on its own: while it awaits the transport or sleeps, nothing
  else touches the client or its manager.
\<close>

function requestLoop ::
  "'j env \<Rightarrow> int \<Rightarrow> nat \<Rightarrow> error option \<Rightarrow> HttpClient
     \<Rightarrow> ((error + 'j HttpResponse) \<times> HttpClient) option" where
  "requestLoop env retries attempt lastError c =
     (if int attempt \<le> retries then
        (case attemptOnce env retries attempt lastError c of
           None \<Rightarrow> None
         | Some (Return response, c') \<Rightarrow> Some (Inr response, c')
         | Some (Throw e, c') \<Rightarrow> Some (Inl e, c')
         | Some (Continue lastError', c') \<Rightarrow> requestLoop env retries (attempt + 1) lastError' c')
      else Some (Inl (case lastError of None \<Rightarrow> RetriesExhausted | Some e \<Rightarrow> e), c))"
  by pat_completeness auto
termination
  by (relation "measure (\<lambda>(env, retries, attempt, lastError, c). nat (retries + 1 - int attempt))") auto

text \<open>
  \<^verbatim>\<open>requestWithRetry(url, options, maxRetries?)\<close>:
  \<^verbatim>\<open>const retries = maxRetries ?? this.config.maxRetries\<close>.
\<close>

definition requestWithRetry ::
  "'j env \<Rightarrow> int option \<Rightarrow> HttpClient \<Rightarrow> ((error + 'j HttpResponse) \<times> HttpClient) option" where
  "requestWithRetry env maxRetriesArg c =
     requestLoop env (case maxRetriesArg of None \<Rightarrow> maxRetries (config c) | Some r \<Rightarrow> r) 1 None c"

section \<open>Pool operations in sequence\<close>

text \<open>
  The public methods of \<^verbatim>\<open>FingerprintManager\<close> that read or write the rotation state,
  as operations; \<open>OpNext now rnd\<close> carries the readings of \<^verbatim>\<open>Date.now()\<close> and
  \<^verbatim>\<open>Math.random()\<close> of that call.
\<close>

datatype poolOp =
    OpCurrent
  | OpNext nat nat
  | OpBlock string
  | OpUnblock string
  | OpReset
  | OpSetStrategy RotationStrategy

fun applyOp :: "poolOp \<Rightarrow> FingerprintManager \<Rightarrow> FingerprintManager option" where
  "applyOp OpCurrent m = Some (snd (getCurrentProfile m))"
| "applyOp (OpNext now rnd) m = map_option snd (getNextProfile now rnd m)"
| "applyOp (OpBlock pid) m = Some (blockProfile pid m)"
| "applyOp (OpUnblock pid) m = Some (unblockProfile pid m)"
| "applyOp OpReset m = Some (resetBlockedProfiles m)"
| "applyOp (OpSetStrategy s) m = Some (setStrategy s m)"

fun runOps :: "poolOp list \<Rightarrow> FingerprintManager \<Rightarrow> FingerprintManager option" where
  "runOps [] m = Some m"
| "runOps (operation # ops) m = (case applyOp operation m of None \<Rightarrow> None | Some m' \<Rightarrow> runOps ops m')"

text \<open>
  Consecutive \<^verbatim>\<open>getNextProfile()\<close> calls, one per pair of readings, with what each
  returned (or threw).
\<close>

fun nextProfiles ::
  "(nat \<times> nat) list \<Rightarrow> FingerprintManager
     \<Rightarrow> ((error + FingerprintProfile) list \<times> FingerprintManager) option" where
  "nextProfiles [] m = Some ([], m)"
| "nextProfiles ((now, rnd) # rest) m =
     (case getNextProfile now rnd m of
        None \<Rightarrow> None
      | Some (r, m') \<Rightarrow>
          (case nextProfiles rest m' of
             None \<Rightarrow> None
           | Some (rs, m'') \<Rightarrow> Some (r # rs, m'')))"

section \<open>The cache of SunoApi instances (function sunoApi)\<close>

text \<open>
  The module-level \<^verbatim>\<open>Map<string, Promise<SunoApi>>\<close> and the promises it holds. A promise
  is known by its number (its position in \<open>promises\<close>); for each promise the model keeps
  the cache key it was created for, whether it is pending, fulfilled (with an instance
  \<open>'i\<close>) or rejected, and whether the call that created it has come back from its
  \<^verbatim>\<open>await\<close>.
\<close>

datatype 'i settled = Pending | Fulfilled 'i | Rejected error

record 'i promise =
  key :: string
  outcome :: "'i settled"
  resumed :: bool

record 'i world =
  cache :: "string \<rightharpoonup> nat"
  promises :: "'i promise list"

text \<open>
  The argument of \<^verbatim>\<open>sunoApi\<close> after normalisation: the cookie, if any, and
  \<^verbatim>\<open>config.proxy?.url\<close>, if any.
\<close>

record SunoApiConfig =
  cookie :: "string option"
  proxyUrl :: "string option"

text \<open>
  \<^verbatim>\<open>resolvedCookie\<close> and \<^verbatim>\<open>cacheKey\<close>; \<open>envCookie\<close> is \<^verbatim>\<open>process.env.SUNO_COOKIE\<close>.
  The empty string is falsy.
\<close>

definition resolveCookie :: "string option \<Rightarrow> SunoApiConfig \<Rightarrow> string option" where
  "resolveCookie envCookie cfg =
     (case cookie cfg of
        None \<Rightarrow> envCookie
      | Some ck \<Rightarrow> if ck \<noteq> [] \<and> str_includes ck ''__client'' then Some ck else envCookie)"

definition cacheKey :: "string \<Rightarrow> SunoApiConfig \<Rightarrow> string" where
  "cacheKey resolvedCookie cfg =
     resolvedCookie @ '':''
       @ (case proxyUrl cfg of None \<Rightarrow> ''no-proxy'' | Some u \<Rightarrow> if u = [] then ''no-proxy'' else u)"

text \<open>
  An \<^verbatim>\<open>async\<close> function runs without interruption up to its first \<^verbatim>\<open>await\<close>. For
  \<^verbatim>\<open>sunoApi\<close> that first part ends in one of three ways: it throws (no cookie), it
  returns the cached promise, or it has started \<^verbatim>\<open>new SunoApi(...).init()\<close>, stored the
  new promise under the key and now awaits it.
\<close>

datatype entered = Threw error | Returned nat | Awaiting string nat

definition sunoApi_enter :: "string option \<Rightarrow> SunoApiConfig \<Rightarrow> 'i world \<Rightarrow> entered \<times> 'i world" where
  "sunoApi_enter envCookie cfg w =
     (case resolveCookie envCookie cfg of
        None \<Rightarrow> (Threw NoCookie, w)
      | Some resolvedCookie \<Rightarrow>
          if resolvedCookie = [] then (Threw NoCookie, w)
          else
            (let k = cacheKey resolvedCookie cfg in
             case cache w k of
               Some cachedPromise \<Rightarrow> (Returned cachedPromise, w)
             | None \<Rightarrow>
                 (let initPromise = length (promises w) in
                  (Awaiting k initPromise,
                   w\<lparr>promises := promises w @ [\<lparr> key = k, outcome = Pending, resumed = False \<rparr>],
                     cache := (cache w)(k \<mapsto> initPromise)\<rparr>))))"

text \<open>
  The rest of \<^verbatim>\<open>sunoApi\<close>, run when the awaited promise has settled: the instance is
  returned, or the key is deleted from the cache and the error thrown again. \<open>None\<close>:
  the call cannot continue (the promise is pending, or it has continued already).
\<close>

definition sunoApi_resume :: "nat \<Rightarrow> 'i world \<Rightarrow> ((error + 'i) \<times> 'i world) option" where
  "sunoApi_resume p w =
     (if p < length (promises w) \<and> \<not> resumed (promises w ! p) then
        (let w1 = w\<lparr>promises := (promises w)[p := (promises w ! p)\<lparr>resumed := True\<rparr>]\<rparr> in
         case outcome (promises w ! p) of
           Pending \<Rightarrow> None
         | Fulfilled instance \<Rightarrow> Some (Inr instance, w1)
         | Rejected e \<Rightarrow> Some (Inl e, w1\<lparr>cache := (cache w1)(key (promises w ! p) := None)\<rparr>))
      else None)"

text \<open>
  \<^verbatim>\<open>SunoApi.init()\<close> finishing: a pending promise is fulfilled or rejected.
\<close>

definition settle :: "nat \<Rightarrow> (error + 'i) \<Rightarrow> 'i world \<Rightarrow> 'i world option" where
  "settle p r w =
     (if p < length (promises w) \<and> outcome (promises w ! p) = Pending then
        Some (w\<lparr>promises := (promises w)[p := (promises w ! p)
                  \<lparr>outcome := (case r of Inl e \<Rightarrow> Rejected e | Inr i \<Rightarrow> Fulfilled i)\<rparr>]\<rparr>)
      else None)"

definition clearSunoApiCache :: "'i world \<Rightarrow> 'i world" where
  "clearSunoApiCache w = w\<lparr>cache := Map.empty\<rparr>"

text \<open>
  What can happen to the cache, one step at a time: a call of \<^verbatim>\<open>sunoApi\<close> runs up to
  its \<^verbatim>\<open>await\<close>, an initialisation finishes, a suspended call continues, or
  \<^verbatim>\<open>clearSunoApiCache\<close> is called. The steps of different calls interleave in any order;
  each step runs to its end before the next starts.
\<close>

datatype 'i event =
    Enter "string option" SunoApiConfig
  | Settle nat "error + 'i"
  | Resume nat
  | Clear

fun step :: "'i event \<Rightarrow> 'i world \<Rightarrow> 'i world option" where
  "step (Enter envCookie cfg) w = Some (snd (sunoApi_enter envCookie cfg w))"
| "step (Settle p r) w = settle p r w"
| "step (Resume p) w = map_option snd (sunoApi_resume p w)"
| "step Clear w = Some (clearSunoApiCache w)"

fun run :: "'i event list \<Rightarrow> 'i world \<Rightarrow> 'i world option" where
  "run [] w = Some w"
| "run (ev # evs) w = (case step ev w of None \<Rightarrow> None | Some w' \<Rightarrow> run evs w')"

definition emptyWorld :: "'i world" where
  "emptyWorld = \<lparr> cache = Map.empty, promises = [] \<rparr>"

section \<open>Predicates used in the proofs\<close>

text \<open>
  \<open>firstMin u ps p\<close>: \<open>p\<close> occurs in \<open>ps\<close>, every profile before it has a strictly larger
  usage count and every profile after it has at least the usage count of \<open>p\<close>.
\<close>

definition firstMin :: "(string \<rightharpoonup> nat) \<Rightarrow> FingerprintProfile list \<Rightarrow> FingerprintProfile \<Rightarrow> bool" where
  "firstMin u ps p \<longleftrightarrow> (\<exists>pre post. ps = pre @ p # post
        \<and> (\<forall>q\<in>set pre. usageOf u p < usageOf u q)
        \<and> (\<forall>q\<in>set post. usageOf u p \<le> usageOf u q))"

text \<open>
  \<open>framed m y\<close>: the result \<open>y\<close> of a rotation from \<open>m\<close> has the catalog, the strategy
  and the preferred platform of \<open>m\<close>, and blocks no profile that \<open>m\<close> did not block.
\<close>

definition framed :: "FingerprintManager \<Rightarrow> (error + FingerprintProfile) \<times> FingerprintManager \<Rightarrow> bool" where
  "framed m y \<longleftrightarrow> profiles (snd y) = profiles m \<and> strategy (snd y) = strategy m
     \<and> preferredPlatform (snd y) = preferredPlatform m
     \<and> blockedProfiles (state (snd y)) \<subseteq> blockedProfiles (state m)"

text \<open>
  \<open>rotations c\<close> counts the calls of \<^verbatim>\<open>rotateFingerprint()\<close> by the lines it logged
  (\<^verbatim>\<open>Rotated to fingerprint: ...\<close>). A client is \<open>ready\<close> when its CycleTLS handle is set and
  the catalog of its manager is not empty. \<open>sameSetup c c'\<close>: the two states agree on the
  handle, the configuration and the catalog.
\<close>

fun isRotated :: "log_entry \<Rightarrow> bool" where
  "isRotated (InfoRotated n) = True"
| "isRotated e = False"

definition rotations :: "HttpClient \<Rightarrow> nat" where
  "rotations c = length (filter isRotated (logged c))"

definition ready :: "HttpClient \<Rightarrow> bool" where
  "ready c \<longleftrightarrow> client c \<and> profiles (fingerprintManager c) \<noteq> []"

definition sameSetup :: "HttpClient \<Rightarrow> HttpClient \<Rightarrow> bool" where
  "sameSetup c c' \<longleftrightarrow> client c' = client c \<and> config c' = config c
     \<and> profiles (fingerprintManager c') = profiles (fingerprintManager c)"

text \<open>
  The invariant of the cache: a cached key maps to a promise created for that key which,
  if the call that created it has come back, was fulfilled; a promise whose creating call
  has not come back is the one cached under its key; and a call comes back only from a
  settled promise.
\<close>

definition cacheInv :: "'i world \<Rightarrow> bool" where
  "cacheInv w \<longleftrightarrow>
     (\<forall>k p. cache w k = Some p \<longrightarrow>
        p < length (promises w) \<and> key (promises w ! p) = k
        \<and> (resumed (promises w ! p) \<longrightarrow> (\<exists>i. outcome (promises w ! p) = Fulfilled i)))
   \<and> (\<forall>p<length (promises w). \<not> resumed (promises w ! p) \<longrightarrow> cache w (key (promises w ! p)) = Some p)
   \<and> (\<forall>p<length (promises w). resumed (promises w ! p) \<longrightarrow> outcome (promises w ! p) \<noteq> Pending)"

section \<open>Example values\<close>

text \<open>
  Concrete responses, environments and states at which the theorems below are
  instantiated. \<open>flakyEnv K\<close> is a transport that throws on its first \<open>K\<close> calls and
  answers \<^verbatim>\<open>200 ok\<close> afterwards; \<open>blockedEnv\<close> answers every call with a challenge page.
\<close>

definition okResponse :: "unit HttpResponse" where
  "okResponse = \<lparr> status = 200, body = StringBody ''ok'', headers = Map.empty \<rparr>"

definition challengeResponse :: "unit HttpResponse" where
  "challengeResponse =
     \<lparr> status = 503, body = StringBody ''Just a moment...'',
       headers = [''cf-ray'' \<mapsto> ''8a1b2c3d4e5f-FRA''] \<rparr>"

definition flakyEnv :: "nat \<Rightarrow> unit env" where
  "flakyEnv K =
     \<lparr> transport = (\<lambda>n p. if n < K then Inl (TransportError ''ECONNRESET'') else Inr okResponse),
       dateNow = (\<lambda>n. 0), mathRandom = (\<lambda>n. 0),
       jsonParse = (\<lambda>s. None), jsonStringify = (\<lambda>u. Some ''null'') \<rparr>"

definition blockedEnv :: "unit env" where
  "blockedEnv =
     \<lparr> transport = (\<lambda>n p. Inr challengeResponse),
       dateNow = (\<lambda>n. 0), mathRandom = (\<lambda>n. 0),
       jsonParse = (\<lambda>s. None), jsonStringify = (\<lambda>u. Some ''null'') \<rparr>"

definition exampleClient :: HttpClient where
  "exampleClient =
     \<lparr> client = True,
       fingerprintManager = newFingerprintManager None None None 0,
       currentProfile = DEFAULT_PROFILE,
       config = \<lparr> rotateFingerprints = False, maxRetries = 3 \<rparr>,
       calls = 0, draws = 0, logged = [], slept = [] \<rparr>"

text \<open>
  A manager over a custom catalog of one profile; the client constructed on it after that
  profile was blocked (its current profile is the default profile, which the catalog does
  not hold), and that client after \<^verbatim>\<open>blockCurrentProfile()\<close>.
\<close>

definition soloManager :: FingerprintManager where
  "soloManager = newFingerprintManager None None (Some [IPHONE_15_SAFARI_17]) 0"

definition staleClient :: HttpClient where
  "staleClient =
     \<lparr> client = False,
       fingerprintManager = clearBlocked (blockProfile ''iphone15-safari17'' soloManager),
       currentProfile = DEFAULT_PROFILE,
       config = \<lparr> rotateFingerprints = False, maxRetries = 3 \<rparr>,
       calls = 0, draws = 0, logged = [], slept = [] \<rparr>"

definition rotatedStaleClient :: HttpClient where
  "rotatedStaleClient =
     \<lparr> client = False,
       fingerprintManager =
         \<lparr> profiles = [IPHONE_15_SAFARI_17],
           state = \<lparr> currentIndex = 1,
                     usageCount = [''iphone15-safari17'' \<mapsto> 1],
                     lastRotation = 0,
                     blockedProfiles = {''pixel8-chrome130''} \<rparr>,
           strategy = RoundRobin,
           preferredPlatform = None \<rparr>,
       currentProfile = IPHONE_15_SAFARI_17,
       config = \<lparr> rotateFingerprints = False, maxRetries = 3 \<rparr>,
       calls = 0, draws = 1, logged = [InfoRotated ''iPhone 15 Pro - Safari 17''], slept = [] \<rparr>"

text \<open>
  A least-used manager whose first profile was used twice and the other two once.
\<close>

definition usedManager :: FingerprintManager where
  "usedManager =
     \<lparr> profiles = [PIXEL_8_CHROME_130, IPHONE_15_SAFARI_17, GALAXY_S24_CHROME_130],
       state = \<lparr> currentIndex = 0,
                 usageCount = [''pixel8-chrome130'' \<mapsto> 2, ''iphone15-safari17'' \<mapsto> 1,
                               ''galaxy-s24-chrome130'' \<mapsto> 1],
                 lastRotation = 0,
                 blockedProfiles = {} \<rparr>,
       strategy = LeastUsed,
       preferredPlatform = None \<rparr>"

text \<open>
  A session that holds a token with a decoded expiry one hour ahead; a decoder that
  returns \<^verbatim>\<open>null\<close> for every token; a token endpoint that issues the given token.
\<close>

definition staleSession :: SessionState where
  "staleSession =
     \<lparr> sid = Some ''sess_1'', currentToken = Some ''old'',
       tokenInfo = Some \<lparr> jwt = ''old'', expiresAt = 3600000 \<rparr>,
       deviceId = ''device'', cookies = Map.empty \<rparr>"

definition neverDecodes :: "string \<Rightarrow> decoded" where
  "neverDecodes token = DecodedNull"

definition alwaysIssues :: "string \<Rightarrow> nat \<Rightarrow> error + string option" where
  "alwaysIssues token n = Inr (Some token)"

text \<open>
  A \<^verbatim>\<open>sunoApi\<close> argument and four states of the cache: one call in flight, its
  initialisation rejected, the entry removed by the call that created it, and two
  initialisations pending for one key.
\<close>

definition exampleConfig :: SunoApiConfig where
  "exampleConfig = \<lparr> cookie = Some ''__client=abc'', proxyUrl = None \<rparr>"

definition inFlightWorld :: "unit world" where
  "inFlightWorld =
     \<lparr> cache = [''__client=abc:no-proxy'' \<mapsto> 0],
       promises = [\<lparr> key = ''__client=abc:no-proxy'', outcome = Pending, resumed = False \<rparr>] \<rparr>"

definition failedWorld :: "unit world" where
  "failedWorld =
     \<lparr> cache = [''__client=abc:no-proxy'' \<mapsto> 0],
       promises = [\<lparr> key = ''__client=abc:no-proxy'', outcome = Rejected (InitError ''no session''),
                     resumed = False \<rparr>] \<rparr>"

definition evictedWorld :: "unit world" where
  "evictedWorld =
     \<lparr> cache = Map.empty,
       promises = [\<lparr> key = ''__client=abc:no-proxy'', outcome = Rejected (InitError ''no session''),
                     resumed = True \<rparr>] \<rparr>"

definition twoInFlightWorld :: "unit world" where
  "twoInFlightWorld =
     \<lparr> cache = [''__client=abc:no-proxy'' \<mapsto> 1],
       promises = [\<lparr> key = ''__client=abc:no-proxy'', outcome = Pending, resumed = False \<rparr>,
                   \<lparr> key = ''__client=abc:no-proxy'', outcome = Pending, resumed = False \<rparr>] \<rparr>"

section \<open>The identity pool\<close>

subsection \<open>Available profiles and rotation\<close>

lemma js_index_mod: "xs \<noteq> [] \<Longrightarrow> js_index xs (i mod length xs) = Some (xs ! (i mod length xs))"
  by (simp add: js_index_def)

lemma getAvailableProfiles_subset: "set (getAvailableProfiles m) \<subseteq> set (profiles m)"
  by (auto simp: getAvailableProfiles_def Let_def split: option.splits)

lemma getAvailableProfiles_unblocked:
  "p \<in> set (getAvailableProfiles m) \<Longrightarrow> profileId p \<notin> blockedProfiles (state m)"
  by (auto simp: getAvailableProfiles_def Let_def split: option.splits if_splits)

lemma getAvailableProfiles_clearBlocked:
  "profiles m \<noteq> [] \<Longrightarrow> getAvailableProfiles (clearBlocked m) \<noteq> []"
  by (auto simp: getAvailableProfiles_def clearBlocked_def Let_def split: option.splits)

lemma getAvailableProfiles_cong:
  "profiles m' = profiles m \<Longrightarrow> preferredPlatform m' = preferredPlatform m
   \<Longrightarrow> blockedProfiles (state m') = blockedProfiles (state m)
   \<Longrightarrow> getAvailableProfiles m' = getAvailableProfiles m"
  by (simp add: getAvailableProfiles_def)

lemma getLeastUsedProfile_Some:
  "ps \<noteq> [] \<Longrightarrow> \<exists>p. getLeastUsedProfile s ps = Some p \<and> p \<in> set ps"
proof -
  have aux: "\<And>minUsage q. q \<in> S \<Longrightarrow> set ps \<subseteq> S \<Longrightarrow> \<exists>p. leastUsedLoop u ps minUsage (Some q) = Some p \<and> p \<in> S" for S u ps
  proof (induction ps)
    case Nil then show ?case by simp
  next
    case (Cons a ps) then show ?case by (auto simp: Let_def)
  qed
  assume "ps \<noteq> []"
  then have "js_index ps 0 = Some (ps ! 0)" "ps ! 0 \<in> set ps" by (auto simp: js_index_def)
  then show ?thesis unfolding getLeastUsedProfile_def using aux[of "ps ! 0" "set ps" ps] by auto
qed

lemma getPlatformStickyProfile_Some:
  assumes "ps \<noteq> []"
  shows "\<exists>p. getPlatformStickyProfile s ps = (Some p, s\<lparr>currentIndex := currentIndex s + 1\<rparr>) \<and> p \<in> set ps"
proof -
  let ?cur = "ps ! (currentIndex s mod length ps)"
  let ?same = "filter (\<lambda>p. platform p = platform ?cur) ps"
  have cur: "js_index ps (currentIndex s mod length ps) = Some ?cur" using assms by (rule js_index_mod)
  have "?cur \<in> set ps" using assms by simp
  then have ne: "?same \<noteq> []" by (auto simp: filter_empty_conv)
  have "js_index ?same (i mod length ?same) = Some (?same ! (i mod length ?same))" for i
    using ne by (rule js_index_mod)
  moreover have "?same ! (i mod length ?same) \<in> set ps" for i
  proof -
    have "?same ! (i mod length ?same) \<in> set ?same" using ne by (intro nth_mem) simp
    then show ?thesis by simp
  qed
  ultimately show ?thesis using ne cur by (simp add: getPlatformStickyProfile_def Let_def)
qed

lemma selectProfile_Some:
  assumes "av \<noteq> []"
  shows "\<exists>p s'. selectProfile rnd strat s av = (Some p, s') \<and> p \<in> set av
           \<and> blockedProfiles s' = blockedProfiles s \<and> usageCount s' = usageCount s"
proof (cases strat)
  case RoundRobin
  then show ?thesis using assms by (simp add: selectProfile_def Let_def js_index_mod)
next
  case Random
  then show ?thesis using assms by (simp add: selectProfile_def js_index_mod)
next
  case LeastUsed
  then show ?thesis using getLeastUsedProfile_Some[OF assms, of s] by (auto simp: selectProfile_def)
next
  case PlatformSticky
  then show ?thesis using getPlatformStickyProfile_Some[OF assms, of s] by (auto simp: selectProfile_def)
qed

lemma getNextProfile_available:
  "getAvailableProfiles m \<noteq> [] \<Longrightarrow>
   getNextProfile now rnd m =
     Some (recordUsage now m (selectProfile rnd (strategy m) (state m) (getAvailableProfiles m)))"
  by (subst getNextProfile.simps) simp

lemma getNextProfile_exhausted:
  "getAvailableProfiles m = [] \<Longrightarrow> getNextProfile now rnd m = getNextProfile now rnd (clearBlocked m)"
  by (subst getNextProfile.simps) simp

lemma getNextProfile_step:
  assumes "getAvailableProfiles m \<noteq> []"
  shows "\<exists>p m'. getNextProfile now rnd m = Some (Inr p, m') \<and> p \<in> set (getAvailableProfiles m)
           \<and> profiles m' = profiles m \<and> strategy m' = strategy m
           \<and> preferredPlatform m' = preferredPlatform m
           \<and> blockedProfiles (state m') = blockedProfiles (state m)"
proof -
  obtain p s' where sel: "selectProfile rnd (strategy m) (state m) (getAvailableProfiles m) = (Some p, s')"
    and p: "p \<in> set (getAvailableProfiles m)" and b: "blockedProfiles s' = blockedProfiles (state m)"
    using selectProfile_Some[OF assms] by blast
  show ?thesis
    using getNextProfile_available[OF assms, of now rnd] sel p b
    by (simp add: recordUsage_def Let_def)
qed

lemma getNextProfile_total:
  assumes "profiles m \<noteq> []"
  shows "\<exists>p m'. getNextProfile now rnd m = Some (Inr p, m') \<and> p \<in> set (profiles m)
           \<and> profiles m' = profiles m \<and> strategy m' = strategy m
           \<and> preferredPlatform m' = preferredPlatform m
           \<and> blockedProfiles (state m') =
               (if getAvailableProfiles m = [] then {} else blockedProfiles (state m))"
proof (cases "getAvailableProfiles m = []")
  case False
  then show ?thesis using getNextProfile_step[OF False, of now rnd] getAvailableProfiles_subset[of m] by auto
next
  case True
  have ne: "getAvailableProfiles (clearBlocked m) \<noteq> []" using assms by (rule getAvailableProfiles_clearBlocked)
  show ?thesis
    using getNextProfile_step[OF ne, of now rnd] getNextProfile_exhausted[OF True, of now rnd]
      getAvailableProfiles_subset[of "clearBlocked m"] True
    by (auto simp: clearBlocked_def)
qed

lemma profileId_catalog [simp]:
  "profileId PIXEL_8_CHROME_130 = ''pixel8-chrome130''"
  "profileId GALAXY_S24_CHROME_130 = ''galaxy-s24-chrome130''"
  "profileId ONEPLUS_12_CHROME_130 = ''oneplus12-chrome130''"
  "profileId XIAOMI_14_CHROME_130 = ''xiaomi14-chrome130''"
  "profileId IPHONE_15_SAFARI_17 = ''iphone15-safari17''"
  "profileId IPHONE_14_SAFARI_17 = ''iphone14-safari17''"
  by (simp_all add: PIXEL_8_CHROME_130_def GALAXY_S24_CHROME_130_def ONEPLUS_12_CHROME_130_def
        XIAOMI_14_CHROME_130_def IPHONE_15_SAFARI_17_def IPHONE_14_SAFARI_17_def)

lemma platform_catalog [simp]:
  "platform PIXEL_8_CHROME_130 = Android"
  "platform GALAXY_S24_CHROME_130 = Android"
  "platform ONEPLUS_12_CHROME_130 = Android"
  "platform XIAOMI_14_CHROME_130 = Android"
  "platform IPHONE_15_SAFARI_17 = Ios"
  "platform IPHONE_14_SAFARI_17 = Ios"
  by (simp_all add: PIXEL_8_CHROME_130_def GALAXY_S24_CHROME_130_def ONEPLUS_12_CHROME_130_def
        XIAOMI_14_CHROME_130_def IPHONE_15_SAFARI_17_def IPHONE_14_SAFARI_17_def)

lemma blockProfile_simps [simp]:
  "profiles (blockProfile pid m) = profiles m"
  "blockedProfiles (state (blockProfile pid m)) = insert pid (blockedProfiles (state m))"
  "preferredPlatform (blockProfile pid m) = preferredPlatform m"
  "strategy (blockProfile pid m) = strategy m"
  by (simp_all add: blockProfile_def)

lemma soloManager_simps [simp]:
  "profiles soloManager = [IPHONE_15_SAFARI_17]"
  "blockedProfiles (state soloManager) = {}"
  "preferredPlatform soloManager = None"
  "strategy soloManager = RoundRobin"
  by (simp_all add: soloManager_def newFingerprintManager_def)

text \<open>
  C4. With a catalog that is not empty, in every rotation state (also when every profile
  is blocked), \<^verbatim>\<open>getCurrentProfile()\<close> returns a profile and \<^verbatim>\<open>getNextProfile()\<close> terminates
  and returns a profile without throwing. When no profile was available the blocked set
  is empty afterwards, and after either call some profile is available.
\<close>

theorem pool_never_empty:
  assumes "profiles m \<noteq> []"
  shows "(\<exists>p. fst (getCurrentProfile m) = Some p)
       \<and> (getAvailableProfiles m = [] \<longrightarrow> blockedProfiles (state (snd (getCurrentProfile m))) = {})
       \<and> getAvailableProfiles (snd (getCurrentProfile m)) \<noteq> []
       \<and> (\<exists>p m'. getNextProfile now rnd m = Some (Inr p, m')
             \<and> (getAvailableProfiles m = [] \<longrightarrow> blockedProfiles (state m') = {})
             \<and> getAvailableProfiles m' \<noteq> [])"
proof -
  have cur: "(\<exists>p. fst (getCurrentProfile m) = Some p)
       \<and> (getAvailableProfiles m = [] \<longrightarrow> blockedProfiles (state (snd (getCurrentProfile m))) = {})
       \<and> getAvailableProfiles (snd (getCurrentProfile m)) \<noteq> []"
  proof (cases "getAvailableProfiles m = []")
    case True
    then show ?thesis
      using getAvailableProfiles_clearBlocked[OF assms]
      by (simp add: getCurrentProfile_def clearBlocked_def)
  next
    case False
    then show ?thesis by (simp add: getCurrentProfile_def Let_def js_index_mod)
  qed
  obtain p m' where nx: "getNextProfile now rnd m = Some (Inr p, m')"
    and same: "profiles m' = profiles m" "preferredPlatform m' = preferredPlatform m"
    and bl: "blockedProfiles (state m') =
               (if getAvailableProfiles m = [] then {} else blockedProfiles (state m))"
    using getNextProfile_total[OF assms, of now rnd] by blast
  have "getAvailableProfiles m' \<noteq> []"
  proof (cases "getAvailableProfiles m = []")
    case True
    then have "getAvailableProfiles m' = getAvailableProfiles (clearBlocked m)"
      using same bl by (intro getAvailableProfiles_cong) (simp_all add: clearBlocked_def)
    then show ?thesis using getAvailableProfiles_clearBlocked[OF assms] by simp
  next
    case False
    then have "getAvailableProfiles m' = getAvailableProfiles m"
      using same bl by (intro getAvailableProfiles_cong) simp_all
    then show ?thesis using False by simp
  qed
  then show ?thesis using cur nx bl by auto
qed

theorem pool_never_empty_witness:
  "profiles (blockProfile ''iphone15-safari17'' soloManager) \<noteq> []
   \<and> getAvailableProfiles (blockProfile ''iphone15-safari17'' soloManager) = []
   \<and> (\<exists>p. fst (getCurrentProfile (blockProfile ''iphone15-safari17'' soloManager)) = Some p)
   \<and> blockedProfiles (state (snd (getCurrentProfile (blockProfile ''iphone15-safari17'' soloManager)))) = {}
   \<and> (\<exists>p m'. getNextProfile 0 0 (blockProfile ''iphone15-safari17'' soloManager) = Some (Inr p, m')
         \<and> blockedProfiles (state m') = {} \<and> getAvailableProfiles m' \<noteq> [])"
proof -
  have ne: "profiles (blockProfile ''iphone15-safari17'' soloManager) \<noteq> []" by simp
  have av: "getAvailableProfiles (blockProfile ''iphone15-safari17'' soloManager) = []"
    by (simp add: getAvailableProfiles_def)
  show ?thesis
    using pool_never_empty[OF ne, of 0 0] ne av by simp
qed

subsection \<open>Least-used selection\<close>

lemma firstMin_here: "\<forall>q\<in>set ps. usageOf u a \<le> usageOf u q \<Longrightarrow> firstMin u (a # ps) a"
  unfolding firstMin_def by (rule exI[of _ "[]"], rule exI[of _ ps]) simp

lemma firstMin_later: "firstMin u ps p \<Longrightarrow> usageOf u p < usageOf u a \<Longrightarrow> firstMin u (a # ps) p"
  unfolding firstMin_def
proof (elim exE conjE)
  fix pre post
  assume "ps = pre @ p # post" "\<forall>q\<in>set pre. usageOf u p < usageOf u q"
    "\<forall>q\<in>set post. usageOf u p \<le> usageOf u q" "usageOf u p < usageOf u a"
  then show "\<exists>pre post. a # ps = pre @ p # post \<and> (\<forall>q\<in>set pre. usageOf u p < usageOf u q)
        \<and> (\<forall>q\<in>set post. usageOf u p \<le> usageOf u q)"
    by (intro exI[of _ "a # pre"] exI[of _ post]) simp
qed

lemma leastUsedLoop_first_min:
  "(\<exists>p. leastUsedLoop u ps mu lu = Some p \<and> enat (usageOf u p) < mu \<and> firstMin u ps p)
   \<or> (leastUsedLoop u ps mu lu = lu \<and> (\<forall>q\<in>set ps. \<not> enat (usageOf u q) < mu))"
proof (induction ps arbitrary: mu lu)
  case Nil
  then show ?case by simp
next
  case (Cons a ps)
  show ?case
  proof (cases "enat (usageOf u a) < mu")
    case True
    then have step: "leastUsedLoop u (a # ps) mu lu = leastUsedLoop u ps (enat (usageOf u a)) (Some a)"
      by (simp add: Let_def)
    from Cons.IH[of "enat (usageOf u a)" "Some a"]
    show ?thesis
    proof
      assume "\<exists>p. leastUsedLoop u ps (enat (usageOf u a)) (Some a) = Some p
                \<and> enat (usageOf u p) < enat (usageOf u a) \<and> firstMin u ps p"
      then obtain p where h: "leastUsedLoop u ps (enat (usageOf u a)) (Some a) = Some p"
        "enat (usageOf u p) < enat (usageOf u a)" "firstMin u ps p" by blast
      have "enat (usageOf u p) < mu" using h(2) True by (rule less_trans)
      moreover have "firstMin u (a # ps) p" using h(3) h(2) by (simp add: firstMin_later)
      ultimately show ?thesis using step h(1) by simp
    next
      assume h: "leastUsedLoop u ps (enat (usageOf u a)) (Some a) = Some a
                 \<and> (\<forall>q\<in>set ps. \<not> enat (usageOf u q) < enat (usageOf u a))"
      then have "\<forall>q\<in>set ps. usageOf u a \<le> usageOf u q" by (simp add: not_less)
      then have "firstMin u (a # ps) a" by (rule firstMin_here)
      then show ?thesis using step h True by simp
    qed
  next
    case False
    then have step: "leastUsedLoop u (a # ps) mu lu = leastUsedLoop u ps mu lu"
      by (simp add: Let_def)
    from Cons.IH[of mu lu]
    show ?thesis
    proof
      assume "\<exists>p. leastUsedLoop u ps mu lu = Some p \<and> enat (usageOf u p) < mu \<and> firstMin u ps p"
      then obtain p where h: "leastUsedLoop u ps mu lu = Some p"
        "enat (usageOf u p) < mu" "firstMin u ps p" by blast
      have "mu \<le> enat (usageOf u a)" using False by (simp add: not_less)
      with h(2) have "enat (usageOf u p) < enat (usageOf u a)" by (rule less_le_trans)
      then have "firstMin u (a # ps) p" using h(3) by (simp add: firstMin_later)
      then show ?thesis using step h(1,2) by simp
    next
      assume "leastUsedLoop u ps mu lu = lu \<and> (\<forall>q\<in>set ps. \<not> enat (usageOf u q) < mu)"
      then show ?thesis using step False by simp
    qed
  qed
qed

lemma getLeastUsedProfile_first_min:
  assumes "ps \<noteq> []"
  shows "\<exists>p. getLeastUsedProfile s ps = Some p \<and> firstMin (usageCount s) ps p"
proof -
  obtain a where a: "a \<in> set ps" using assms by (cases ps) auto
  have "enat (usageOf (usageCount s) a) < \<infinity>" by simp
  then have "\<not> (\<forall>q\<in>set ps. \<not> enat (usageOf (usageCount s) q) < \<infinity>)" using a by blast
  then show ?thesis
    using leastUsedLoop_first_min[of "usageCount s" ps \<infinity> "js_index ps 0"]
    unfolding getLeastUsedProfile_def by blast
qed

lemma subseq_getAvailableProfiles: "subseq (getAvailableProfiles m) (profiles m)"
proof -
  have "subseq (filter P (filter Q xs)) xs" for P Q and xs :: "FingerprintProfile list"
    using subseq_order.trans[OF subseq_filter_left subseq_filter_left] .
  then show ?thesis
    by (simp add: getAvailableProfiles_def Let_def split: option.splits)
qed

text \<open>
  C9. Under the least-used strategy, when some profile is available, \<^verbatim>\<open>getNextProfile()\<close>
  returns an available profile whose usage count is the minimum over the available
  profiles, and every available profile before it has a strictly larger usage count; the
  available profiles are in catalog order.
\<close>

theorem least_used_first_minimum:
  assumes "strategy m = LeastUsed" and "getAvailableProfiles m \<noteq> []"
  shows "\<exists>p m' pre post.
           getNextProfile now rnd m = Some (Inr p, m')
         \<and> getAvailableProfiles m = pre @ p # post
         \<and> usageOf (usageCount (state m)) p
             = Min (usageOf (usageCount (state m)) ` set (getAvailableProfiles m))
         \<and> (\<forall>q\<in>set pre. usageOf (usageCount (state m)) p < usageOf (usageCount (state m)) q)
         \<and> subseq (getAvailableProfiles m) (profiles m)"
proof -
  let ?u = "usageOf (usageCount (state m))"
  let ?av = "getAvailableProfiles m"
  obtain p where r: "getLeastUsedProfile (state m) ?av = Some p"
    and fm: "firstMin (usageCount (state m)) ?av p"
    using getLeastUsedProfile_first_min[OF assms(2), of "state m"] by blast
  obtain pre post where d: "?av = pre @ p # post"
    and lt: "\<forall>q\<in>set pre. ?u p < ?u q" and le: "\<forall>q\<in>set post. ?u p \<le> ?u q"
    using fm unfolding firstMin_def by blast
  have "\<forall>q\<in>set (pre @ p # post). ?u p \<le> ?u q" using lt le by (auto simp: less_imp_le)
  then have all: "\<forall>q\<in>set ?av. ?u p \<le> ?u q" using d by simp
  have mem: "p \<in> set ?av" using d by simp
  have mn: "Min (?u ` set ?av) = ?u p"
    by (rule Min_eqI) (use all mem in auto)
  obtain m' where nx: "getNextProfile now rnd m = Some (Inr p, m')"
    using getNextProfile_available[OF assms(2), of now rnd] r assms(1)
    by (simp add: selectProfile_def recordUsage_def Let_def)
  show ?thesis
    apply (rule exI[of _ p], rule exI[of _ m'], rule exI[of _ pre], rule exI[of _ post])
    using nx d mn lt subseq_getAvailableProfiles[of m] by simp
qed

theorem least_used_first_minimum_witness:
  "strategy usedManager = LeastUsed
   \<and> getAvailableProfiles usedManager = [PIXEL_8_CHROME_130, IPHONE_15_SAFARI_17, GALAXY_S24_CHROME_130]
   \<and> (\<exists>m'. getNextProfile 0 0 usedManager = Some (Inr IPHONE_15_SAFARI_17, m'))"
proof -
  let ?u = "usageOf (usageCount (state usedManager))"
  have s: "strategy usedManager = LeastUsed" by (simp add: usedManager_def)
  have av: "getAvailableProfiles usedManager = [PIXEL_8_CHROME_130, IPHONE_15_SAFARI_17, GALAXY_S24_CHROME_130]"
    by (simp add: usedManager_def getAvailableProfiles_def)
  then have ne: "getAvailableProfiles usedManager \<noteq> []" by simp
  have u: "?u PIXEL_8_CHROME_130 = 2" "?u IPHONE_15_SAFARI_17 = 1" "?u GALAXY_S24_CHROME_130 = 1"
    by (simp_all add: usedManager_def usageOf_def)
  obtain p m' pre post where nx: "getNextProfile 0 0 usedManager = Some (Inr p, m')"
    and d: "getAvailableProfiles usedManager = pre @ p # post"
    and mn: "?u p = Min (?u ` set (getAvailableProfiles usedManager))"
    and lt: "\<forall>q\<in>set pre. ?u p < ?u q"
    using least_used_first_minimum[OF s ne, of 0 0] by blast
  have m1: "?u p = 1" using mn av u by simp
  have d': "[PIXEL_8_CHROME_130, IPHONE_15_SAFARI_17, GALAXY_S24_CHROME_130] = pre @ p # post"
    using d av by simp
  have "p = IPHONE_15_SAFARI_17"
  proof (cases pre)
    case Nil
    then have "p = PIXEL_8_CHROME_130" using d' by simp
    then show ?thesis using m1 u by simp
  next
    case (Cons a pre1)
    then have a: "a = PIXEL_8_CHROME_130" and d1: "[IPHONE_15_SAFARI_17, GALAXY_S24_CHROME_130] = pre1 @ p # post"
      using d' by simp_all
    show ?thesis
    proof (cases pre1)
      case Nil
      then show ?thesis using d1 by simp
    next
      case (Cons b pre2)
      then have "b = IPHONE_15_SAFARI_17" using d1 by simp
      then have "IPHONE_15_SAFARI_17 \<in> set pre" using \<open>pre = a # pre1\<close> Cons by simp
      then have "?u p < ?u IPHONE_15_SAFARI_17" using lt by blast
      then show ?thesis using m1 u by simp
    qed
  qed
  then show ?thesis using s av nx by blast
qed

subsection \<open>Round-robin\<close>

lemma getAvailableProfiles_plain:
  "blockedProfiles (state m) = {} \<Longrightarrow> preferredPlatform m = None \<Longrightarrow> getAvailableProfiles m = profiles m"
  by (simp add: getAvailableProfiles_def)

lemma getNextProfile_roundRobin:
  assumes "strategy m = RoundRobin" "blockedProfiles (state m) = {}" "preferredPlatform m = None"
    "profiles m \<noteq> []"
  shows "\<exists>m'. getNextProfile now rnd m
            = Some (Inr (profiles m ! ((currentIndex (state m) + 1) mod length (profiles m))), m')
          \<and> strategy m' = RoundRobin \<and> blockedProfiles (state m') = {}
          \<and> preferredPlatform m' = None \<and> profiles m' = profiles m
          \<and> currentIndex (state m') = currentIndex (state m) + 1"
proof -
  have av: "getAvailableProfiles m = profiles m" using assms(2,3) by (rule getAvailableProfiles_plain)
  then have ne: "getAvailableProfiles m \<noteq> []" using assms(4) by simp
  show ?thesis
    using getNextProfile_available[OF ne, of now rnd] av assms
    by (simp add: selectProfile_def recordUsage_def Let_def js_index_mod)
qed

lemma nextProfiles_roundRobin:
  assumes "strategy m = RoundRobin" "blockedProfiles (state m) = {}" "preferredPlatform m = None"
    "profiles m \<noteq> []"
  shows "\<exists>m'. nextProfiles ext m
            = Some (map (\<lambda>k. Inr (profiles m ! ((currentIndex (state m) + 1 + k) mod length (profiles m))))
                      [0..<length ext], m')
          \<and> strategy m' = RoundRobin \<and> blockedProfiles (state m') = {}
          \<and> preferredPlatform m' = None \<and> profiles m' = profiles m
          \<and> currentIndex (state m') = currentIndex (state m) + length ext"
  using assms
proof (induction ext arbitrary: m)
  case Nil
  then show ?case by simp
next
  case (Cons a ext)
  obtain now rnd where a: "a = (now, rnd)" by (cases a)
  obtain m1 where s1: "getNextProfile now rnd m
            = Some (Inr (profiles m ! ((currentIndex (state m) + 1) mod length (profiles m))), m1)"
    and k1: "strategy m1 = RoundRobin" "blockedProfiles (state m1) = {}"
      "preferredPlatform m1 = None" and p1: "profiles m1 = profiles m"
    and i1: "currentIndex (state m1) = currentIndex (state m) + 1"
    using getNextProfile_roundRobin[OF Cons.prems, of now rnd] by blast
  have ne1: "profiles m1 \<noteq> []" using p1 Cons.prems(4) by simp
  obtain m2 where s2: "nextProfiles ext m1
            = Some (map (\<lambda>k. Inr (profiles m1 ! ((currentIndex (state m1) + 1 + k) mod length (profiles m1))))
                      [0..<length ext], m2)"
    and k2: "strategy m2 = RoundRobin" "blockedProfiles (state m2) = {}"
      "preferredPlatform m2 = None" "profiles m2 = profiles m1"
      "currentIndex (state m2) = currentIndex (state m1) + length ext"
    using Cons.IH[OF k1 ne1] by blast
  have step: "nextProfiles (a # ext) m
        = Some (Inr (profiles m ! ((currentIndex (state m) + 1) mod length (profiles m)))
                # map (\<lambda>k. Inr (profiles m1 ! ((currentIndex (state m1) + 1 + k) mod length (profiles m1))))
                    [0..<length ext], m2)"
    using s1 s2 a by simp
  have "map (\<lambda>k. Inr (profiles m ! ((currentIndex (state m) + 1 + k) mod length (profiles m))))
           [0..<length (a # ext)]
        = Inr (profiles m ! ((currentIndex (state m) + 1) mod length (profiles m)))
          # map (\<lambda>k. Inr (profiles m1 ! ((currentIndex (state m1) + 1 + k) mod length (profiles m1))))
              [0..<length ext]"
    by (simp add: p1 i1 map_upt_Suc del: upt_Suc)
  from step[folded this] have "nextProfiles (a # ext) m
        = Some (map (\<lambda>k. Inr (profiles m ! ((currentIndex (state m) + 1 + k) mod length (profiles m))))
                  [0..<length (a # ext)], m2)" .
  moreover have "currentIndex (state m2) = currentIndex (state m) + length (a # ext)"
    using k2(5) i1 by simp
  moreover have "profiles m2 = profiles m" using k2(4) p1 by simp
  ultimately show ?case using k2(1-3) by blast
qed

lemma map_nth_rotate:
  assumes "xs \<noteq> []"
  shows "map (\<lambda>k. xs ! ((c + k) mod length xs)) [0..<length xs] = rotate (c mod length xs) xs"
proof (rule nth_equalityI)
  show "length (map (\<lambda>k. xs ! ((c + k) mod length xs)) [0..<length xs]) = length (rotate (c mod length xs) xs)"
    by simp
next
  fix i assume "i < length (map (\<lambda>k. xs ! ((c + k) mod length xs)) [0..<length xs])"
  then have i: "i < length xs" by simp
  have "rotate (c mod length xs) xs ! i = xs ! ((c mod length xs + i) mod length xs)"
    using i by (simp add: nth_rotate)
  also have "(c mod length xs + i) mod length xs = (c + i) mod length xs"
    by (simp add: mod_add_left_eq)
  finally show "map (\<lambda>k. xs ! ((c + k) mod length xs)) [0..<length xs] ! i = rotate (c mod length xs) xs ! i"
    using i by simp
qed

lemma mset_rotate_eq: "mset (rotate n xs) = mset xs"
proof -
  have "mset (drop k xs @ take k xs) = mset (take k xs @ drop k xs)" for k
    by (simp only: mset_append add.commute)
  then show ?thesis by (simp add: rotate_drop_take)
qed

text \<open>
  C8. Under round-robin, with no profile blocked and no preferred platform, \<open>N\<close>
  consecutive \<^verbatim>\<open>getNextProfile()\<close> calls on a catalog of \<open>N \<ge> 1\<close> profiles, from any
  cursor position, return the catalog rotated by the cursor: each profile exactly once.
  The state they leave satisfies the same conditions, so the same holds for the next
  \<open>N\<close> calls.
\<close>

theorem round_robin_visits_each_once:
  assumes "strategy m = RoundRobin" and "blockedProfiles (state m) = {}"
    and "preferredPlatform m = None" and "profiles m \<noteq> []"
    and "length ext = length (profiles m)"
  shows "\<exists>rs m'. nextProfiles ext m = Some (rs, m')
          \<and> rs = map Inr (rotate ((currentIndex (state m) + 1) mod length (profiles m)) (profiles m))
          \<and> mset rs = mset (map Inr (profiles m))
          \<and> strategy m' = RoundRobin \<and> blockedProfiles (state m') = {}
          \<and> preferredPlatform m' = None \<and> profiles m' = profiles m"
proof -
  let ?c = "currentIndex (state m) + 1"
  let ?xs = "profiles m"
  obtain m' where s: "nextProfiles ext m
            = Some (map (\<lambda>k. Inr (?xs ! ((?c + k) mod length ?xs))) [0..<length ext], m')"
    and k: "strategy m' = RoundRobin" "blockedProfiles (state m') = {}"
      "preferredPlatform m' = None" "profiles m' = profiles m"
    using nextProfiles_roundRobin[OF assms(1-4), of ext] by blast
  have "map (\<lambda>k. Inr (?xs ! ((?c + k) mod length ?xs))) [0..<length ext]
        = map Inr (map (\<lambda>k. ?xs ! ((?c + k) mod length ?xs)) [0..<length ?xs])"
    using assms(5) by simp
  also have "\<dots> = map Inr (rotate (?c mod length ?xs) ?xs)"
    using map_nth_rotate[OF assms(4), of ?c] by simp
  finally have eq: "map (\<lambda>k. Inr (?xs ! ((?c + k) mod length ?xs))) [0..<length ext]
        = map Inr (rotate (?c mod length ?xs) ?xs)" .
  have ms: "mset (map Inr (rotate (?c mod length ?xs) ?xs)) = mset (map Inr ?xs)"
    by (simp add: mset_rotate_eq)
  have s': "nextProfiles ext m = Some (map Inr (rotate (?c mod length ?xs) ?xs), m')"
    using s unfolding eq .
  show ?thesis
    by (rule exI[of _ "map Inr (rotate (?c mod length ?xs) ?xs)"], rule exI[of _ m'])
       (use s' ms k in simp)
qed

theorem round_robin_visits_each_once_witness:
  "\<exists>m'. nextProfiles [(0, 0), (5, 0), (9, 0), (12, 0), (20, 0), (21, 0)]
            (newFingerprintManager None None None 0)
          = Some (map Inr [GALAXY_S24_CHROME_130, ONEPLUS_12_CHROME_130, XIAOMI_14_CHROME_130,
                           IPHONE_15_SAFARI_17, IPHONE_14_SAFARI_17, PIXEL_8_CHROME_130], m')"
proof -
  let ?m = "newFingerprintManager None None None 0"
  have h: "strategy ?m = RoundRobin" "blockedProfiles (state ?m) = {}" "preferredPlatform ?m = None"
    "profiles ?m \<noteq> []"
    "length [(0::nat, 0::nat), (5, 0), (9, 0), (12, 0), (20, 0), (21, 0)] = length (profiles ?m)"
    by (simp_all add: newFingerprintManager_def FINGERPRINT_PROFILES_def)
  have r: "rotate ((currentIndex (state ?m) + 1) mod length (profiles ?m)) (profiles ?m)
         = [GALAXY_S24_CHROME_130, ONEPLUS_12_CHROME_130, XIAOMI_14_CHROME_130,
            IPHONE_15_SAFARI_17, IPHONE_14_SAFARI_17, PIXEL_8_CHROME_130]"
    by (simp add: newFingerprintManager_def FINGERPRINT_PROFILES_def)
  show ?thesis
    using round_robin_visits_each_once[OF h] unfolding r by blast
qed

subsection \<open>The blocked set\<close>

lemma selectProfile_blocked:
  "blockedProfiles (snd (selectProfile rnd strat s av)) = blockedProfiles s"
  by (cases strat) (simp_all add: selectProfile_def getPlatformStickyProfile_def Let_def)

lemma recordUsage_frame:
  "profiles (snd (recordUsage now m sel)) = profiles m
   \<and> strategy (snd (recordUsage now m sel)) = strategy m
   \<and> preferredPlatform (snd (recordUsage now m sel)) = preferredPlatform m
   \<and> blockedProfiles (state (snd (recordUsage now m sel))) = blockedProfiles (snd sel)"
  by (cases sel) (simp add: recordUsage_def Let_def split: option.splits)

lemma getNextProfile_framed:
  assumes "getNextProfile now rnd m = Some y"
  shows "framed m y"
proof -
  have step: "framed m y"
    if IH: "\<And>now rnd m y. f now rnd m = Some y \<Longrightarrow> framed m y"
      and eq: "(if length (getAvailableProfiles m) = 0 then f now rnd (clearBlocked m)
                else Some (recordUsage now m
                   (selectProfile rnd (strategy m) (state m) (getAvailableProfiles m)))) = Some y"
    for f now rnd m y
  proof (cases "length (getAvailableProfiles m) = 0")
    case True
    then have "f now rnd (clearBlocked m) = Some y" using eq by simp
    from IH[OF this] show ?thesis by (simp add: framed_def clearBlocked_def)
  next
    case False
    then have "y = recordUsage now m (selectProfile rnd (strategy m) (state m) (getAvailableProfiles m))"
      using eq by simp
    then show ?thesis
      using recordUsage_frame[of now m] selectProfile_blocked[of rnd "strategy m" "state m"]
      by (simp add: framed_def)
  qed
  show ?thesis
    by (rule getNextProfile.raw_induct[where P = "\<lambda>now rnd m y. framed m y", OF step assms])
qed

lemma getNextProfile_frame:
  "getNextProfile now rnd m = Some y \<Longrightarrow>
     profiles (snd y) = profiles m \<and> strategy (snd y) = strategy m
     \<and> preferredPlatform (snd y) = preferredPlatform m
     \<and> blockedProfiles (state (snd y)) \<subseteq> blockedProfiles (state m)"
  using getNextProfile_framed[of now rnd m y] by (simp add: framed_def)

lemma applyOp_blocked:
  assumes "applyOp operation m = Some m'"
    and "blockedProfiles (state m) \<subseteq> profileId ` set (profiles m)"
    and "\<forall>pid. operation = OpBlock pid \<longrightarrow> pid \<in> profileId ` set (profiles m)"
  shows "blockedProfiles (state m') \<subseteq> profileId ` set (profiles m') \<and> profiles m' = profiles m"
proof (cases operation)
  case OpCurrent
  then show ?thesis using assms by (auto simp: getCurrentProfile_def Let_def clearBlocked_def split: if_splits)
next
  case (OpNext now rnd)
  then obtain y where y: "getNextProfile now rnd m = Some y" "m' = snd y" using assms(1) by auto
  show ?thesis using getNextProfile_frame[OF y(1)] y(2) assms(2) by auto
next
  case (OpBlock pid)
  then show ?thesis using assms by (auto simp: blockProfile_def)
next
  case (OpUnblock pid)
  then show ?thesis using assms by (auto simp: unblockProfile_def)
next
  case OpReset
  then show ?thesis using assms by (auto simp: resetBlockedProfiles_def clearBlocked_def)
next
  case (OpSetStrategy s)
  then show ?thesis using assms by (auto simp: setStrategy_def)
qed

lemma runOps_blocked:
  assumes "runOps ops m = Some m'"
    and "blockedProfiles (state m) \<subseteq> profileId ` set (profiles m)"
    and "\<forall>pid. OpBlock pid \<in> set ops \<longrightarrow> pid \<in> profileId ` set (profiles m)"
  shows "blockedProfiles (state m') \<subseteq> profileId ` set (profiles m') \<and> profiles m' = profiles m"
  using assms
proof (induction ops arbitrary: m)
  case Nil
  then show ?case by simp
next
  case (Cons operation ops)
  then obtain m1 where m1: "applyOp operation m = Some m1" "runOps ops m1 = Some m'"
    by (auto split: option.splits)
  have "\<forall>pid. operation = OpBlock pid \<longrightarrow> pid \<in> profileId ` set (profiles m)"
    using Cons.prems(3) by simp
  from applyOp_blocked[OF m1(1) Cons.prems(2) this]
  have i1: "blockedProfiles (state m1) \<subseteq> profileId ` set (profiles m1)" and p1: "profiles m1 = profiles m"
    by auto
  have "\<forall>pid. OpBlock pid \<in> set ops \<longrightarrow> pid \<in> profileId ` set (profiles m1)"
    using Cons.prems(3) p1 by simp
  from Cons.IH[OF m1(2) i1 this]
  have r: "blockedProfiles (state m') \<subseteq> profileId ` set (profiles m')"
    and q: "profiles m' = profiles m1" by blast+
  show ?case
  proof (intro conjI)
    show "blockedProfiles (state m') \<subseteq> profileId ` set (profiles m')" by (rule r)
    show "profiles m' = profiles m" using q p1 by (rule trans)
  qed
qed

lemma staleClient_constructed:
  "newHttpClient \<lparr> rotateFingerprints = False, maxRetries = 3 \<rparr>
       (blockProfile ''iphone15-safari17'' soloManager)
     = Inr staleClient"
  by (simp add: newHttpClient_def getCurrentProfile_def getAvailableProfiles_def staleClient_def)

lemma staleClient_blocked:
  "blockCurrentProfile blockedEnv staleClient = Some (Inr IPHONE_15_SAFARI_17, rotatedStaleClient)"
proof -
  let ?m = "blockProfile ''pixel8-chrome130'' (clearBlocked (blockProfile ''iphone15-safari17'' soloManager))"
  have av: "getAvailableProfiles ?m = [IPHONE_15_SAFARI_17]"
    by (simp add: getAvailableProfiles_def clearBlocked_def blockProfile_def soloManager_def
                  newFingerprintManager_def)
  then have ne: "getAvailableProfiles ?m \<noteq> []" by simp
  have st: "strategy ?m = RoundRobin"
    by (simp add: clearBlocked_def blockProfile_def soloManager_def newFingerprintManager_def)
  have nx: "getNextProfile 0 0 ?m
        = Some (recordUsage 0 ?m (selectProfile 0 RoundRobin (state ?m) [IPHONE_15_SAFARI_17]))"
    using getNextProfile_available[OF ne, of 0 0] av st by simp
  have nm: "name IPHONE_15_SAFARI_17 = ''iPhone 15 Pro - Safari 17''"
    by (simp add: IPHONE_15_SAFARI_17_def)
  have ru: "recordUsage 0 ?m (selectProfile 0 RoundRobin (state ?m) [IPHONE_15_SAFARI_17])
        = (Inr IPHONE_15_SAFARI_17, fingerprintManager rotatedStaleClient)"
    by (simp add: selectProfile_def recordUsage_def js_index_def Let_def clearBlocked_def
                  blockProfile_def soloManager_def newFingerprintManager_def usageOf_def
                  rotatedStaleClient_def)
  show ?thesis
    using nx unfolding ru
    by (simp add: blockCurrentProfile_def rotateFingerprint_def managerNext_def staleClient_def
                  blockedEnv_def DEFAULT_PROFILE_def nm rotatedStaleClient_def)
qed

text \<open>
  C6, as amended. \<^verbatim>\<open>blockProfile(id)\<close> adds its argument to the blocked set without
  looking at the catalog. In every state reached from a new manager by operations whose
  \<^verbatim>\<open>blockProfile\<close> arguments are catalog ids, the blocked set holds catalog ids only.
\<close>

theorem blocked_subset_of_catalog:
  assumes "runOps ops (newFingerprintManager strategyOpt preferredOpt customProfiles now) = Some m'"
    and "\<forall>pid. OpBlock pid \<in> set ops \<longrightarrow>
           pid \<in> profileId ` set (profiles (newFingerprintManager strategyOpt preferredOpt customProfiles now))"
  shows "blockedProfiles (state m') \<subseteq> profileId ` set (profiles m')"
proof -
  have "blockedProfiles (state (newFingerprintManager strategyOpt preferredOpt customProfiles now)) = {}"
    by (simp add: newFingerprintManager_def Let_def)
  then have "blockedProfiles (state (newFingerprintManager strategyOpt preferredOpt customProfiles now))
           \<subseteq> profileId ` set (profiles (newFingerprintManager strategyOpt preferredOpt customProfiles now))"
    by simp
  from runOps_blocked[OF assms(1) this assms(2)] show ?thesis by blast
qed

theorem blocked_subset_of_catalog_witness:
  "runOps [OpBlock ''pixel8-chrome130'', OpUnblock ''iphone14-safari17'', OpBlock ''iphone15-safari17'']
       (newFingerprintManager None None None 0)
     = Some (blockProfile ''iphone15-safari17'' (unblockProfile ''iphone14-safari17''
              (blockProfile ''pixel8-chrome130'' (newFingerprintManager None None None 0))))
   \<and> blockedProfiles (state (blockProfile ''iphone15-safari17'' (unblockProfile ''iphone14-safari17''
              (blockProfile ''pixel8-chrome130'' (newFingerprintManager None None None 0)))))
      \<subseteq> profileId ` set (profiles (blockProfile ''iphone15-safari17'' (unblockProfile ''iphone14-safari17''
              (blockProfile ''pixel8-chrome130'' (newFingerprintManager None None None 0)))))"
proof -
  have r: "runOps [OpBlock ''pixel8-chrome130'', OpUnblock ''iphone14-safari17'', OpBlock ''iphone15-safari17'']
       (newFingerprintManager None None None 0)
     = Some (blockProfile ''iphone15-safari17'' (unblockProfile ''iphone14-safari17''
              (blockProfile ''pixel8-chrome130'' (newFingerprintManager None None None 0))))"
    by simp
  have h: "\<forall>pid. OpBlock pid \<in> set [OpBlock ''pixel8-chrome130'', OpUnblock ''iphone14-safari17'',
                                       OpBlock ''iphone15-safari17'']
             \<longrightarrow> pid \<in> profileId ` set (profiles (newFingerprintManager None None None 0))"
    by (auto simp: newFingerprintManager_def FINGERPRINT_PROFILES_def)
  show ?thesis using blocked_subset_of_catalog[OF r h] r by simp
qed

text \<open>
  C6 as stated fails. Blocking an id that is not in the default catalog leaves it in the
  blocked set. And a client constructed on a manager with a custom catalog whose only
  profile is blocked gets the default profile as its current profile;
  \<^verbatim>\<open>blockCurrentProfile()\<close> then puts the id of the default profile, which the catalog does
  not hold, into the blocked set.
\<close>

theorem blocked_outside_catalog_counterexample:
  "runOps [OpBlock ''no-such-profile''] (newFingerprintManager None None None 0)
     = Some (blockProfile ''no-such-profile'' (newFingerprintManager None None None 0))
   \<and> ''no-such-profile'' \<in> blockedProfiles (state (blockProfile ''no-such-profile''
                                  (newFingerprintManager None None None 0)))
   \<and> ''no-such-profile'' \<notin> set (map profileId (profiles (blockProfile ''no-such-profile''
                                  (newFingerprintManager None None None 0))))
   \<and> newHttpClient \<lparr> rotateFingerprints = False, maxRetries = 3 \<rparr>
         (blockProfile ''iphone15-safari17'' soloManager)
       = Inr staleClient
   \<and> blockCurrentProfile blockedEnv staleClient = Some (Inr IPHONE_15_SAFARI_17, rotatedStaleClient)
   \<and> ''pixel8-chrome130'' \<in> blockedProfiles (state (fingerprintManager rotatedStaleClient))
   \<and> ''pixel8-chrome130'' \<notin> set (map profileId (profiles (fingerprintManager rotatedStaleClient)))"
  using staleClient_constructed staleClient_blocked
  by (simp add: newFingerprintManager_def FINGERPRINT_PROFILES_def rotatedStaleClient_def)

section \<open>The retry loop\<close>

subsection \<open>One attempt\<close>

lemma sameSetup_refl: "sameSetup c c" by (simp add: sameSetup_def)

lemma sameSetup_trans: "sameSetup a b \<Longrightarrow> sameSetup b c \<Longrightarrow> sameSetup a c" by (simp add: sameSetup_def)

lemma sameSetup_ready: "sameSetup c c' \<Longrightarrow> ready c \<Longrightarrow> ready c'" by (simp add: sameSetup_def ready_def)

lemma managerNext_ok:
  assumes "profiles (fingerprintManager c) \<noteq> []"
  shows "\<exists>p m'. getNextProfile (dateNow env (draws c)) (mathRandom env (draws c)) (fingerprintManager c)
                   = Some (Inr p, m')
          \<and> managerNext env c = Some (Inr p, c\<lparr>fingerprintManager := m', draws := draws c + 1\<rparr>)
          \<and> profiles m' = profiles (fingerprintManager c)
          \<and> blockedProfiles (state m') =
               (if getAvailableProfiles (fingerprintManager c) = [] then {}
                else blockedProfiles (state (fingerprintManager c)))"
proof -
  obtain p m' where g: "getNextProfile (dateNow env (draws c)) (mathRandom env (draws c)) (fingerprintManager c)
                   = Some (Inr p, m')" and f: "profiles m' = profiles (fingerprintManager c)"
      "blockedProfiles (state m') =
               (if getAvailableProfiles (fingerprintManager c) = [] then {}
                else blockedProfiles (state (fingerprintManager c)))"
    using getNextProfile_total[OF assms] by blast
  show ?thesis using g f by (simp add: managerNext_def)
qed

lemma rotateFingerprint_ok:
  assumes "profiles (fingerprintManager c) \<noteq> []"
  shows "\<exists>p c'. rotateFingerprint env c = Some (Inr p, c') \<and> sameSetup c c'
          \<and> calls c' = calls c \<and> rotations c' = rotations c + 1 \<and> draws c' = draws c + 1
          \<and> currentProfile c' = p
          \<and> blockedProfiles (state (fingerprintManager c')) =
               (if getAvailableProfiles (fingerprintManager c) = [] then {}
                else blockedProfiles (state (fingerprintManager c)))"
proof -
  obtain p m' where g: "managerNext env c = Some (Inr p, c\<lparr>fingerprintManager := m', draws := draws c + 1\<rparr>)"
    and f: "profiles m' = profiles (fingerprintManager c)"
      "blockedProfiles (state m') =
               (if getAvailableProfiles (fingerprintManager c) = [] then {}
                else blockedProfiles (state (fingerprintManager c)))"
    using managerNext_ok[OF assms, of env] by blast
  show ?thesis using g f by (simp add: rotateFingerprint_def sameSetup_def rotations_def)
qed

lemma request_ok:
  assumes "ready c"
  shows "\<exists>p c1. request env c
            = Some ((case transport env (calls c) p of
                       Inl e \<Rightarrow> Inl e
                     | Inr response \<Rightarrow> Inr (response\<lparr>body := parseBody env (body response)\<rparr>)), c1)
          \<and> sameSetup c c1 \<and> calls c1 = calls c + 1 \<and> rotations c1 = rotations c
          \<and> draws c1 = draws c + (if rotateFingerprints (config c) then 1 else 0)
          \<and> currentProfile c1 = p"
proof (cases "rotateFingerprints (config c)")
  case True
  have ne: "profiles (fingerprintManager c) \<noteq> []" using assms by (simp add: ready_def)
  obtain p m' where g: "managerNext env c = Some (Inr p, c\<lparr>fingerprintManager := m', draws := draws c + 1\<rparr>)"
    and f: "profiles m' = profiles (fingerprintManager c)"
    using managerNext_ok[OF ne, of env] by blast
  show ?thesis
    apply (rule exI[of _ p])
    using g f True assms
    by (cases "transport env (calls c) p")
       (simp_all add: request_def ready_def sameSetup_def rotations_def Let_def)
next
  case False
  show ?thesis
    apply (rule exI[of _ "currentProfile c"])
    using False assms
    by (cases "transport env (calls c) (currentProfile c)")
       (simp_all add: request_def ready_def sameSetup_def rotations_def Let_def)
qed

lemma catchBlock_ok:
  assumes "ready c"
  shows "\<exists>c'. catchBlock env retries attempt e c = Some (Continue (Some e), c') \<and> sameSetup c c'
          \<and> calls c' = calls c
          \<and> rotations c' = rotations c + (if int attempt < retries then 1 else 0)
          \<and> draws c' = draws c + (if int attempt < retries then 1 else 0)
          \<and> (\<not> int attempt < retries \<longrightarrow> fingerprintManager c' = fingerprintManager c)"
proof (cases "int attempt < retries")
  case True
  let ?c1 = "c\<lparr>logged := logged c @ [ErrorAttemptFailed attempt retries e]\<rparr>"
  have ne: "profiles (fingerprintManager ?c1) \<noteq> []" using assms by (simp add: ready_def)
  obtain p c2 where r: "rotateFingerprint env ?c1 = Some (Inr p, c2)" and s: "sameSetup ?c1 c2"
    and k: "calls c2 = calls ?c1" "rotations c2 = rotations ?c1 + 1" "draws c2 = draws ?c1 + 1"
    using rotateFingerprint_ok[OF ne, of env] by blast
  have "catchBlock env retries attempt e c = Some (Continue (Some e), sleep (2 ^ attempt * 1000) c2)"
    using True r by (simp add: catchBlock_def Let_def)
  moreover have "sameSetup c (sleep (2 ^ attempt * 1000) c2)"
    using s by (simp add: sameSetup_def sleep_def)
  moreover have "rotations (sleep (2 ^ attempt * 1000) c2) = rotations c + 1"
    using k(2) by (simp add: rotations_def sleep_def)
  moreover have "calls (sleep (2 ^ attempt * 1000) c2) = calls c" "draws (sleep (2 ^ attempt * 1000) c2) = draws c + 1"
    using k(1,3) by (simp_all add: sleep_def)
  ultimately show ?thesis using True by simp
next
  case False
  then show ?thesis by (simp add: catchBlock_def Let_def sameSetup_def rotations_def)
qed

lemma attemptOnce_throw:
  "request env c = Some (Inl e, c1) \<Longrightarrow>
   attemptOnce env retries attempt lastError c = catchBlock env retries attempt e c1"
  by (simp add: attemptOnce_def)

lemma attemptOnce_answer:
  "request env c = Some (Inr response, c1) \<Longrightarrow> isCloudflareChallenge (jsonStringify env) response = Inr False \<Longrightarrow>
   attemptOnce env retries attempt lastError c = Some (Return response, c1)"
  by (simp add: attemptOnce_def)

lemma blockCurrentProfile_ok:
  assumes "profiles (fingerprintManager c) \<noteq> []"
  shows "\<exists>p c'. blockCurrentProfile env c = Some (Inr p, c') \<and> sameSetup c c'
          \<and> calls c' = calls c \<and> rotations c' = rotations c + 1 \<and> draws c' = draws c + 1
          \<and> currentProfile c' = p
          \<and> blockedProfiles (state (fingerprintManager c')) =
               (if getAvailableProfiles (blockProfile (profileId (currentProfile c)) (fingerprintManager c)) = []
                then {}
                else insert (profileId (currentProfile c)) (blockedProfiles (state (fingerprintManager c))))"
proof -
  let ?c0 = "c\<lparr>fingerprintManager := blockProfile (profileId (currentProfile c)) (fingerprintManager c)\<rparr>"
  have ne: "profiles (fingerprintManager ?c0) \<noteq> []" using assms by (simp add: blockProfile_def)
  obtain p c' where r: "rotateFingerprint env ?c0 = Some (Inr p, c')" and s: "sameSetup ?c0 c'"
    and k: "calls c' = calls ?c0" "rotations c' = rotations ?c0 + 1" "draws c' = draws ?c0 + 1"
      "currentProfile c' = p"
      "blockedProfiles (state (fingerprintManager c')) =
               (if getAvailableProfiles (fingerprintManager ?c0) = [] then {}
                else blockedProfiles (state (fingerprintManager ?c0)))"
    using rotateFingerprint_ok[OF ne, of env] by blast
  have "sameSetup c c'" using s by (simp add: sameSetup_def blockProfile_def)
  moreover have "rotations c' = rotations c + 1" using k(2) by (simp add: rotations_def)
  moreover have "blockedProfiles (state (fingerprintManager c')) =
               (if getAvailableProfiles (blockProfile (profileId (currentProfile c)) (fingerprintManager c)) = []
                then {}
                else insert (profileId (currentProfile c)) (blockedProfiles (state (fingerprintManager c))))"
    using k(5) by (simp add: blockProfile_def)
  ultimately show ?thesis using r k(1,3,4) by (simp add: blockCurrentProfile_def)
qed

lemma attemptOnce_challenge:
  assumes "request env c = Some (Inr response, c1)" and "isCloudflareChallenge (jsonStringify env) response = Inr True"
    and "ready c1"
  shows "\<exists>c'. attemptOnce env retries attempt lastError c
            = Some (Continue (if int attempt < retries then lastError else Some ChallengeFallback), c')
          \<and> sameSetup c1 c' \<and> calls c' = calls c1 \<and> rotations c' = rotations c1 + 1
          \<and> draws c' = draws c1 + 1
          \<and> blockedProfiles (state (fingerprintManager c')) =
               (if getAvailableProfiles (blockProfile (profileId (currentProfile c1)) (fingerprintManager c1)) = []
                then {}
                else insert (profileId (currentProfile c1)) (blockedProfiles (state (fingerprintManager c1))))"
proof -
  let ?c2 = "c1\<lparr>logged := logged c1 @ [WarnChallenge attempt retries]\<rparr>"
  have ne: "profiles (fingerprintManager ?c2) \<noteq> []" using assms(3) by (simp add: ready_def)
  obtain p c3 where b: "blockCurrentProfile env ?c2 = Some (Inr p, c3)" and s: "sameSetup ?c2 c3"
    and k: "calls c3 = calls ?c2" "rotations c3 = rotations ?c2 + 1" "draws c3 = draws ?c2 + 1"
      "blockedProfiles (state (fingerprintManager c3)) =
               (if getAvailableProfiles (blockProfile (profileId (currentProfile ?c2)) (fingerprintManager ?c2)) = []
                then {}
                else insert (profileId (currentProfile ?c2)) (blockedProfiles (state (fingerprintManager ?c2))))"
    using blockCurrentProfile_ok[OF ne, of env] by blast
  have s13: "sameSetup c1 c3" using s by (simp add: sameSetup_def)
  have r3: "rotations c3 = rotations c1 + 1" using k(2) by (simp add: rotations_def)
  have c3: "calls c3 = calls c1" "draws c3 = draws c1 + 1" using k(1,3) by simp_all
  have b3: "blockedProfiles (state (fingerprintManager c3)) =
               (if getAvailableProfiles (blockProfile (profileId (currentProfile c1)) (fingerprintManager c1)) = []
                then {}
                else insert (profileId (currentProfile c1)) (blockedProfiles (state (fingerprintManager c1))))"
    using k(4) by simp
  show ?thesis
  proof (cases "int attempt < retries")
    case True
    have "attemptOnce env retries attempt lastError c = Some (Continue lastError, sleep (2 ^ attempt * 1000) c3)"
      using assms(1,2) b True by (simp add: attemptOnce_def Let_def)
    moreover have "sameSetup c1 (sleep (2 ^ attempt * 1000) c3)" using s13 by (simp add: sameSetup_def sleep_def)
    moreover have "rotations (sleep (2 ^ attempt * 1000) c3) = rotations c1 + 1"
      using r3 by (simp add: rotations_def sleep_def)
    ultimately show ?thesis using True c3 b3 by (simp add: sleep_def)
  next
    case False
    have rd3: "ready c3" using s13 assms(3) by (rule sameSetup_ready)
    obtain c' where cb: "catchBlock env retries attempt ChallengeFallback c3 = Some (Continue (Some ChallengeFallback), c')"
      and s': "sameSetup c3 c'" and k': "calls c' = calls c3" "rotations c' = rotations c3 + (if int attempt < retries then 1 else 0)"
        "draws c' = draws c3 + (if int attempt < retries then 1 else 0)"
        "\<not> int attempt < retries \<longrightarrow> fingerprintManager c' = fingerprintManager c3"
      using catchBlock_ok[OF rd3, of env retries attempt ChallengeFallback] by blast
    have "attemptOnce env retries attempt lastError c = Some (Continue (Some ChallengeFallback), c')"
      using assms(1,2) b False cb by (simp add: attemptOnce_def Let_def)
    moreover have "sameSetup c1 c'" using s13 s' by (rule sameSetup_trans)
    ultimately show ?thesis using False k' c3 r3 b3 by simp
  qed
qed

lemma attemptOnce_Return:
  "attemptOnce env retries attempt lastError c = Some (Return response, c') \<Longrightarrow>
   isCloudflareChallenge (jsonStringify env) response = Inr False"
  by (auto simp: attemptOnce_def catchBlock_def Let_def
           split: option.splits sum.splits prod.splits if_splits bool.splits)

lemma attemptOnce_failing:
  assumes "ready c" and "\<forall>p. transport env (calls c) p = Inl e"
  shows "\<exists>c'. attemptOnce env retries attempt lastError c = Some (Continue (Some e), c')
          \<and> sameSetup c c' \<and> calls c' = calls c + 1
          \<and> rotations c' = rotations c + (if int attempt < retries then 1 else 0)
          \<and> draws c' = draws c + (if rotateFingerprints (config c) then 1 else 0)
                         + (if int attempt < retries then 1 else 0)"
proof -
  obtain p c1 where r: "request env c
            = Some ((case transport env (calls c) p of
                       Inl e \<Rightarrow> Inl e
                     | Inr response \<Rightarrow> Inr (response\<lparr>body := parseBody env (body response)\<rparr>)), c1)"
    and s: "sameSetup c c1" and k: "calls c1 = calls c + 1" "rotations c1 = rotations c"
      "draws c1 = draws c + (if rotateFingerprints (config c) then 1 else 0)"
    using request_ok[OF assms(1), of env] by blast
  have r': "request env c = Some (Inl e, c1)" using r assms(2) by simp
  have rd: "ready c1" using s assms(1) by (rule sameSetup_ready)
  obtain c' where cb: "catchBlock env retries attempt e c1 = Some (Continue (Some e), c')"
    and s': "sameSetup c1 c'" and k': "calls c' = calls c1"
      "rotations c' = rotations c1 + (if int attempt < retries then 1 else 0)"
      "draws c' = draws c1 + (if int attempt < retries then 1 else 0)"
    using catchBlock_ok[OF rd, of env retries attempt e] by blast
  have "attemptOnce env retries attempt lastError c = Some (Continue (Some e), c')"
    using attemptOnce_throw[OF r'] cb by simp
  moreover have "sameSetup c c'" using s s' by (rule sameSetup_trans)
  ultimately show ?thesis using k k' by simp
qed

lemma attemptOnce_succeeding:
  assumes "ready c" and "\<forall>p. transport env (calls c) p = Inr raw"
    and "isCloudflareChallenge (jsonStringify env) (raw\<lparr>body := parseBody env (body raw)\<rparr>) = Inr False"
  shows "\<exists>c'. attemptOnce env retries attempt lastError c
            = Some (Return (raw\<lparr>body := parseBody env (body raw)\<rparr>), c')
          \<and> sameSetup c c' \<and> calls c' = calls c + 1 \<and> rotations c' = rotations c
          \<and> draws c' = draws c + (if rotateFingerprints (config c) then 1 else 0)"
proof -
  obtain p c1 where r: "request env c
            = Some ((case transport env (calls c) p of
                       Inl e \<Rightarrow> Inl e
                     | Inr response \<Rightarrow> Inr (response\<lparr>body := parseBody env (body response)\<rparr>)), c1)"
    and s: "sameSetup c c1" and k: "calls c1 = calls c + 1" "rotations c1 = rotations c"
      "draws c1 = draws c + (if rotateFingerprints (config c) then 1 else 0)"
    using request_ok[OF assms(1), of env] by blast
  have r': "request env c = Some (Inr (raw\<lparr>body := parseBody env (body raw)\<rparr>), c1)"
    using r assms(2) by simp
  show ?thesis using attemptOnce_answer[OF r' assms(3)] s k by simp
qed

subsection \<open>The loop\<close>

lemma requestLoop_no_challenge:
  "requestLoop env retries attempt lastError c = Some (Inr response, c') \<Longrightarrow>
   isCloudflareChallenge (jsonStringify env) response = Inr False"
proof (induction env retries attempt lastError c rule: requestLoop.induct)
  case (1 env retries attempt lastError c)
  show ?case
  proof (cases "int attempt \<le> retries")
    case False
    then show ?thesis using "1.prems" by (subst (asm) requestLoop.simps) simp
  next
    case True
    show ?thesis
    proof (cases "attemptOnce env retries attempt lastError c")
      case None
      then show ?thesis using "1.prems" True by (subst (asm) requestLoop.simps) simp
    next
      case (Some fc)
      obtain fl c1 where fc: "fc = (fl, c1)" by (cases fc)
      show ?thesis
      proof (cases fl)
        case (Return r)
        then have "response = r" using "1.prems" True Some fc by (subst (asm) requestLoop.simps) simp
        then show ?thesis using attemptOnce_Return Some fc Return by blast
      next
        case (Continue le)
        then have "requestLoop env retries (attempt + 1) le c1 = Some (Inr response, c')"
          using "1.prems" True Some fc by (subst (asm) requestLoop.simps) simp
        from "1.IH"[OF True Some fc[symmetric] Continue this] show ?thesis .
      next
        case (Throw e)
        then show ?thesis using "1.prems" True Some fc by (subst (asm) requestLoop.simps) simp
      qed
    qed
  qed
qed

lemma requestLoop_past_bound:
  "\<not> int attempt \<le> retries \<Longrightarrow>
   requestLoop env retries attempt lastError c
     = Some (Inl (case lastError of None \<Rightarrow> RetriesExhausted | Some e \<Rightarrow> e), c)"
  by (subst requestLoop.simps) simp

lemma requestLoop_Continue:
  "int attempt \<le> retries \<Longrightarrow> attemptOnce env retries attempt lastError c = Some (Continue le, c') \<Longrightarrow>
   requestLoop env retries attempt lastError c = requestLoop env retries (attempt + 1) le c'"
  by (subst requestLoop.simps) simp

lemma requestLoop_Return:
  "int attempt \<le> retries \<Longrightarrow> attemptOnce env retries attempt lastError c = Some (Return r, c') \<Longrightarrow>
   requestLoop env retries attempt lastError c = Some (Inr r, c')"
  by (subst requestLoop.simps) simp

lemma requestLoop_recovers:
  assumes "ready c" and "int attempt + int K \<le> retries"
    and "\<forall>i<K. \<forall>p. transport env (calls c + i) p = Inl (errs i)"
    and "\<forall>p. transport env (calls c + K) p = Inr raw"
    and "isCloudflareChallenge (jsonStringify env) (raw\<lparr>body := parseBody env (body raw)\<rparr>) = Inr False"
  shows "\<exists>c'. requestLoop env retries attempt lastError c
            = Some (Inr (raw\<lparr>body := parseBody env (body raw)\<rparr>), c')
          \<and> rotations c' = rotations c + K \<and> calls c' = calls c + K + 1
          \<and> draws c' = draws c + K + (if rotateFingerprints (config c) then K + 1 else 0)"
  using assms(1-4)
proof (induction K arbitrary: attempt lastError c errs)
  case 0
  have le: "int attempt \<le> retries" using "0.prems"(2) by simp
  have t: "\<forall>p. transport env (calls c) p = Inr raw" using "0.prems"(4) by simp
  obtain c' where a: "attemptOnce env retries attempt lastError c
            = Some (Return (raw\<lparr>body := parseBody env (body raw)\<rparr>), c')"
    and k: "calls c' = calls c + 1" "rotations c' = rotations c"
      "draws c' = draws c + (if rotateFingerprints (config c) then 1 else 0)"
    using attemptOnce_succeeding[OF "0.prems"(1) t assms(5), of retries attempt lastError] by blast
  show ?case using requestLoop_Return[OF le a] k by simp
next
  case (Suc K)
  have le: "int attempt \<le> retries" and lt: "int attempt < retries" using Suc.prems(2) by simp_all
  have t: "\<forall>p. transport env (calls c) p = Inl (errs 0)" using Suc.prems(3) by force
  obtain c1 where a: "attemptOnce env retries attempt lastError c = Some (Continue (Some (errs 0)), c1)"
    and s: "sameSetup c c1" and k: "calls c1 = calls c + 1"
      "rotations c1 = rotations c + (if int attempt < retries then 1 else 0)"
      "draws c1 = draws c + (if rotateFingerprints (config c) then 1 else 0)
                         + (if int attempt < retries then 1 else 0)"
    using attemptOnce_failing[OF Suc.prems(1) t, of retries attempt lastError] by blast
  have rd: "ready c1" using s Suc.prems(1) by (rule sameSetup_ready)
  have b: "int (attempt + 1) + int K \<le> retries" using Suc.prems(2) by simp
  have f: "\<forall>i<K. \<forall>p. transport env (calls c1 + i) p = Inl (errs (Suc i))"
    using Suc.prems(3) k(1) by (auto simp: add.commute add.left_commute)
  have g: "\<forall>p. transport env (calls c1 + K) p = Inr raw" using Suc.prems(4) k(1) by simp
  obtain c' where l: "requestLoop env retries (attempt + 1) (Some (errs 0)) c1
            = Some (Inr (raw\<lparr>body := parseBody env (body raw)\<rparr>), c')"
    and k': "rotations c' = rotations c1 + K" "calls c' = calls c1 + K + 1"
      "draws c' = draws c1 + K + (if rotateFingerprints (config c1) then K + 1 else 0)"
    using Suc.IH[OF rd b f g, of "Some (errs 0)"] by blast
  have cfg: "config c1 = config c" using s by (simp add: sameSetup_def)
  show ?case using requestLoop_Continue[OF le a] l k k' lt cfg by simp
qed

lemma requestLoop_gives_up:
  assumes "ready c" and "int attempt \<le> retries" and "retries < int attempt + int K"
    and "\<forall>i<K. \<forall>p. transport env (calls c + i) p = Inl (errs i)"
  shows "\<exists>c'. requestLoop env retries attempt lastError c
            = Some (Inl (errs (nat (retries - int attempt))), c')
          \<and> rotations c' = rotations c + nat (retries - int attempt)
          \<and> calls c' = calls c + nat (retries - int attempt) + 1
          \<and> draws c' = draws c + nat (retries - int attempt)
                + (if rotateFingerprints (config c) then nat (retries - int attempt) + 1 else 0)"
  using assms
proof (induction K arbitrary: attempt lastError c errs)
  case 0
  then show ?case by simp
next
  case (Suc K)
  have le: "int attempt \<le> retries" using Suc.prems(2) .
  have t: "\<forall>p. transport env (calls c) p = Inl (errs 0)" using Suc.prems(4) by force
  obtain c1 where a: "attemptOnce env retries attempt lastError c = Some (Continue (Some (errs 0)), c1)"
    and s: "sameSetup c c1" and k: "calls c1 = calls c + 1"
      "rotations c1 = rotations c + (if int attempt < retries then 1 else 0)"
      "draws c1 = draws c + (if rotateFingerprints (config c) then 1 else 0)
                         + (if int attempt < retries then 1 else 0)"
    using attemptOnce_failing[OF Suc.prems(1) t, of retries attempt lastError] by blast
  have rd: "ready c1" using s Suc.prems(1) by (rule sameSetup_ready)
  have cfg: "config c1 = config c" using s by (simp add: sameSetup_def)
  show ?case
  proof (cases "int attempt < retries")
    case True
    have b1: "int (attempt + 1) \<le> retries" using True by simp
    have b2: "retries < int (attempt + 1) + int K" using Suc.prems(3) by simp
    have f: "\<forall>i<K. \<forall>p. transport env (calls c1 + i) p = Inl (errs (Suc i))"
      using Suc.prems(4) k(1) by (auto simp: add.commute add.left_commute)
    obtain c' where l: "requestLoop env retries (attempt + 1) (Some (errs 0)) c1
            = Some (Inl (errs (Suc (nat (retries - int (attempt + 1))))), c')"
      and k': "rotations c' = rotations c1 + nat (retries - int (attempt + 1))"
        "calls c' = calls c1 + nat (retries - int (attempt + 1)) + 1"
        "draws c' = draws c1 + nat (retries - int (attempt + 1))
                + (if rotateFingerprints (config c1) then nat (retries - int (attempt + 1)) + 1 else 0)"
      using Suc.IH[OF rd b1 b2 f, of "Some (errs 0)"] by blast
    have n: "Suc (nat (retries - int (attempt + 1))) = nat (retries - int attempt)" using True by simp
    have n': "nat (retries - int (attempt + 1)) = nat (retries - int attempt) - 1" using True by simp
    have pos: "0 < nat (retries - int attempt)" using True by simp
    show ?thesis using requestLoop_Continue[OF le a] l k k' True cfg n pos unfolding n' by simp
  next
    case False
    then have eq: "retries = int attempt" using le by simp
    have "requestLoop env retries (attempt + 1) (Some (errs 0)) c1 = Some (Inl (errs 0), c1)"
      using eq by (subst requestLoop_past_bound) simp_all
    then show ?thesis using requestLoop_Continue[OF le a] k False eq by simp
  qed
qed

lemma requestLoop_escalates:
  assumes "ready c" and "int attempt \<le> retries" and "n = nat (retries - int attempt)"
    and "\<forall>i\<le>n. \<forall>p. \<exists>raw. transport env (calls c + i) p = Inr raw
           \<and> isCloudflareChallenge (jsonStringify env) (raw\<lparr>body := parseBody env (body raw)\<rparr>) = Inr True"
  shows "\<exists>c'. requestLoop env retries attempt lastError c = Some (Inl ChallengeFallback, c')
          \<and> rotations c' = rotations c + n + 1 \<and> calls c' = calls c + n + 1"
  using assms
proof (induction n arbitrary: attempt lastError c)
  case 0
  have le: "int attempt \<le> retries" using "0.prems"(2) .
  have eq: "retries = int attempt" using "0.prems"(2,3) by simp
  obtain p c1 where r: "request env c
            = Some ((case transport env (calls c) p of
                       Inl e \<Rightarrow> Inl e
                     | Inr response \<Rightarrow> Inr (response\<lparr>body := parseBody env (body response)\<rparr>)), c1)"
    and s: "sameSetup c c1" and k: "calls c1 = calls c + 1" "rotations c1 = rotations c"
    using request_ok[OF "0.prems"(1), of env] by blast
  obtain raw where t: "transport env (calls c) p = Inr raw"
    and ch: "isCloudflareChallenge (jsonStringify env) (raw\<lparr>body := parseBody env (body raw)\<rparr>) = Inr True"
    using "0.prems"(4) by force
  have r': "request env c = Some (Inr (raw\<lparr>body := parseBody env (body raw)\<rparr>), c1)" using r t by simp
  have rd: "ready c1" using s "0.prems"(1) by (rule sameSetup_ready)
  obtain c' where a: "attemptOnce env retries attempt lastError c
            = Some (Continue (if int attempt < retries then lastError else Some ChallengeFallback), c')"
    and k': "calls c' = calls c1" "rotations c' = rotations c1 + 1"
    using attemptOnce_challenge[OF r' ch rd, of retries attempt lastError] by blast
  have a': "attemptOnce env retries attempt lastError c = Some (Continue (Some ChallengeFallback), c')"
    using a eq by simp
  have "requestLoop env retries (attempt + 1) (Some ChallengeFallback) c' = Some (Inl ChallengeFallback, c')"
    using eq by (subst requestLoop_past_bound) simp_all
  then show ?case using requestLoop_Continue[OF le a'] k k' by simp
next
  case (Suc n)
  have le: "int attempt \<le> retries" using Suc.prems(2) .
  have lt: "int attempt < retries" using Suc.prems(3) by simp
  obtain p c1 where r: "request env c
            = Some ((case transport env (calls c) p of
                       Inl e \<Rightarrow> Inl e
                     | Inr response \<Rightarrow> Inr (response\<lparr>body := parseBody env (body response)\<rparr>)), c1)"
    and s: "sameSetup c c1" and k: "calls c1 = calls c + 1" "rotations c1 = rotations c"
    using request_ok[OF Suc.prems(1), of env] by blast
  obtain raw where t: "transport env (calls c) p = Inr raw"
    and ch: "isCloudflareChallenge (jsonStringify env) (raw\<lparr>body := parseBody env (body raw)\<rparr>) = Inr True"
    using Suc.prems(4) by force
  have r': "request env c = Some (Inr (raw\<lparr>body := parseBody env (body raw)\<rparr>), c1)" using r t by simp
  have rd: "ready c1" using s Suc.prems(1) by (rule sameSetup_ready)
  obtain c2 where a: "attemptOnce env retries attempt lastError c
            = Some (Continue (if int attempt < retries then lastError else Some ChallengeFallback), c2)"
    and s2: "sameSetup c1 c2" and k2: "calls c2 = calls c1" "rotations c2 = rotations c1 + 1"
    using attemptOnce_challenge[OF r' ch rd, of retries attempt lastError] by blast
  have a': "attemptOnce env retries attempt lastError c = Some (Continue lastError, c2)"
    using a lt by simp
  have rd2: "ready c2" using s2 rd by (rule sameSetup_ready)
  have b1: "int (attempt + 1) \<le> retries" using lt by simp
  have b2: "n = nat (retries - int (attempt + 1))" using Suc.prems(3) by simp
  have f: "\<forall>i\<le>n. \<forall>p. \<exists>raw. transport env (calls c2 + i) p = Inr raw
           \<and> isCloudflareChallenge (jsonStringify env) (raw\<lparr>body := parseBody env (body raw)\<rparr>) = Inr True"
  proof (intro allI impI)
    fix i p assume "i \<le> n"
    then have "Suc i \<le> Suc n" by simp
    with Suc.prems(4) have "\<exists>raw. transport env (calls c + Suc i) p = Inr raw
           \<and> isCloudflareChallenge (jsonStringify env) (raw\<lparr>body := parseBody env (body raw)\<rparr>) = Inr True" by blast
    moreover have "calls c2 + i = calls c + Suc i" using k2(1) k(1) by simp
    ultimately show "\<exists>raw. transport env (calls c2 + i) p = Inr raw
           \<and> isCloudflareChallenge (jsonStringify env) (raw\<lparr>body := parseBody env (body raw)\<rparr>) = Inr True" by simp
  qed
  obtain c' where l: "requestLoop env retries (attempt + 1) lastError c2 = Some (Inl ChallengeFallback, c')"
    and k': "rotations c' = rotations c2 + n + 1" "calls c' = calls c2 + n + 1"
    using Suc.IH[OF rd2 b1 b2 f, of lastError] by blast
  show ?case using requestLoop_Continue[OF le a'] l k k2 k' by simp
qed

lemma exampleClient_simps [simp]:
  "client exampleClient" "calls exampleClient = 0" "rotations exampleClient = 0"
  "config exampleClient = \<lparr> rotateFingerprints = False, maxRetries = 3 \<rparr>"
  "profiles (fingerprintManager exampleClient) = FINGERPRINT_PROFILES"
  "currentProfile exampleClient = DEFAULT_PROFILE"
  "draws exampleClient = 0"
  by (simp_all add: exampleClient_def rotations_def newFingerprintManager_def)

lemma ready_exampleClient: "ready exampleClient"
  by (simp add: ready_def FINGERPRINT_PROFILES_def)

lemma ok_not_challenge: "isCloudflareChallenge stringify (okResponse\<lparr>body := b\<rparr>) = Inr False"
  by (simp add: isCloudflareChallenge_def okResponse_def)

lemma challenge_is_challenge:
  "isCloudflareChallenge stringify (challengeResponse\<lparr>body := b\<rparr>) = Inr True"
  by (simp add: isCloudflareChallenge_def challengeResponse_def)

lemma request_blocked_example:
  "request blockedEnv exampleClient
     = Some (Inr challengeResponse,
             exampleClient\<lparr>logged := [DebugRequest ''pixel8-chrome130''], calls := 1\<rparr>)"
  by (simp add: request_def blockedEnv_def exampleClient_def parseBody_def challengeResponse_def
                DEFAULT_PROFILE_def Let_def)

lemma available_after_block_example:
  "getAvailableProfiles (blockProfile ''pixel8-chrome130'' (newFingerprintManager None None None 0)) \<noteq> []"
  by (simp add: getAvailableProfiles_def blockProfile_def newFingerprintManager_def
                FINGERPRINT_PROFILES_def)

text \<open>
  C1, as amended. Let the transport throw on the next \<open>K\<close> calls and then answer with a
  response that is classified as not a challenge, and let the client be ready. If
  \<open>K < retries\<close>,
  \<^verbatim>\<open>requestWithRetry\<close> returns that response after exactly \<open>K\<close> calls of
  \<^verbatim>\<open>rotateFingerprint()\<close>. If \<open>1 \<le> retries \<le> K\<close>, it throws the error of the last attempt
  after exactly \<open>retries - 1\<close> such calls: none follows the final attempt. If
  \<open>retries \<le> 0\<close>, it sends nothing, rotates nothing and throws
  \<^verbatim>\<open>'Request failed after max retries'\<close>. The manager is asked for the next profile once
  per call of \<^verbatim>\<open>rotateFingerprint()\<close> and, when rotation on every request is enabled,
  once more per request sent.
\<close>

theorem retry_rotation_count:
  assumes "ready c"
    and "retries = (case maxRetriesArg of None \<Rightarrow> maxRetries (config c) | Some r \<Rightarrow> r)"
    and "\<forall>i<K. \<forall>p. transport env (calls c + i) p = Inl (errs i)"
    and "\<forall>p. transport env (calls c + K) p = Inr raw"
    and "isCloudflareChallenge (jsonStringify env) (raw\<lparr>body := parseBody env (body raw)\<rparr>) = Inr False"
  shows "(int K < retries \<longrightarrow>
            (\<exists>c'. requestWithRetry env maxRetriesArg c
                     = Some (Inr (raw\<lparr>body := parseBody env (body raw)\<rparr>), c')
                 \<and> rotations c' = rotations c + K
                 \<and> draws c' = draws c + K + (if rotateFingerprints (config c) then K + 1 else 0)))
       \<and> (1 \<le> retries \<and> retries \<le> int K \<longrightarrow>
            (\<exists>c'. requestWithRetry env maxRetriesArg c = Some (Inl (errs (nat retries - 1)), c')
                 \<and> rotations c' = rotations c + (nat retries - 1)
                 \<and> draws c' = draws c + (nat retries - 1)
                      + (if rotateFingerprints (config c) then nat retries else 0)))
       \<and> (retries \<le> 0 \<longrightarrow> requestWithRetry env maxRetriesArg c = Some (Inl RetriesExhausted, c))"
proof (intro conjI impI)
  assume "int K < retries"
  then have b: "int (1::nat) + int K \<le> retries" by simp
  obtain c' where "requestLoop env retries 1 None c
            = Some (Inr (raw\<lparr>body := parseBody env (body raw)\<rparr>), c')"
      "rotations c' = rotations c + K"
      "draws c' = draws c + K + (if rotateFingerprints (config c) then K + 1 else 0)"
    using requestLoop_recovers[OF assms(1) b assms(3,4,5), of None] by blast
  then show "\<exists>c'. requestWithRetry env maxRetriesArg c
                     = Some (Inr (raw\<lparr>body := parseBody env (body raw)\<rparr>), c')
                 \<and> rotations c' = rotations c + K
                 \<and> draws c' = draws c + K + (if rotateFingerprints (config c) then K + 1 else 0)"
    using assms(2) by (simp add: requestWithRetry_def)
next
  assume h: "1 \<le> retries \<and> retries \<le> int K"
  then have b1: "int (1::nat) \<le> retries" and b2: "retries < int (1::nat) + int K" by simp_all
  have n: "nat (retries - int (1::nat)) = nat retries - 1" by simp
  have n2: "nat retries - 1 + 1 = nat retries" using h by simp
  obtain c' where "requestLoop env retries 1 None c
            = Some (Inl (errs (nat (retries - int (1::nat)))), c')"
      "rotations c' = rotations c + nat (retries - int (1::nat))"
      "draws c' = draws c + nat (retries - int (1::nat))
                + (if rotateFingerprints (config c) then nat (retries - int (1::nat)) + 1 else 0)"
    using requestLoop_gives_up[OF assms(1) b1 b2 assms(3), of None] by blast
  then show "\<exists>c'. requestWithRetry env maxRetriesArg c = Some (Inl (errs (nat retries - 1)), c')
                 \<and> rotations c' = rotations c + (nat retries - 1)
                 \<and> draws c' = draws c + (nat retries - 1)
                      + (if rotateFingerprints (config c) then nat retries else 0)"
    using assms(2) unfolding n n2 by (simp add: requestWithRetry_def)
next
  assume "retries \<le> 0"
  then have "\<not> int (1::nat) \<le> retries" by simp
  from requestLoop_past_bound[OF this, of env None c]
  show "requestWithRetry env maxRetriesArg c = Some (Inl RetriesExhausted, c)"
    using assms(2) by (simp add: requestWithRetry_def)
qed

theorem retry_rotation_count_witness:
  "(\<exists>c'. requestWithRetry (flakyEnv 1) None exampleClient = Some (Inr okResponse, c')
         \<and> rotations c' = 1 \<and> draws c' = 1)
   \<and> (\<exists>c'. requestWithRetry (flakyEnv 5) (Some 2) exampleClient
              = Some (Inl (TransportError ''ECONNRESET''), c')
         \<and> rotations c' = 1 \<and> draws c' = 1)
   \<and> requestWithRetry (flakyEnv 0) (Some 0) exampleClient = Some (Inl RetriesExhausted, exampleClient)"
proof -
  have p: "okResponse\<lparr>body := parseBody (flakyEnv K) (body okResponse)\<rparr> = okResponse" for K
    by (simp add: okResponse_def parseBody_def flakyEnv_def)
  have a: "\<forall>i<K. \<forall>p. transport (flakyEnv K) (calls exampleClient + i) p
              = Inl (TransportError ''ECONNRESET'')" for K
    by (simp add: flakyEnv_def)
  have b: "\<forall>p. transport (flakyEnv K) (calls exampleClient + K) p = Inr okResponse" for K
    by (simp add: flakyEnv_def)
  have n: "isCloudflareChallenge (jsonStringify (flakyEnv K))
             (okResponse\<lparr>body := parseBody (flakyEnv K) (body okResponse)\<rparr>) = Inr False" for K
    by (rule ok_not_challenge)
  show ?thesis
    using retry_rotation_count[OF ready_exampleClient _ a b n,
            where maxRetriesArg = None and retries = 3 and K = 1]
          retry_rotation_count[OF ready_exampleClient _ a b n,
            where maxRetriesArg = "Some 2" and retries = 2 and K = 5]
          retry_rotation_count[OF ready_exampleClient _ a b n,
            where maxRetriesArg = "Some 0" and retries = 0 and K = 0]
    by (simp add: p)
qed

text \<open>
  C1 as stated fails at the bound 0 (with \<open>K = 0\<close>, so \<open>K \<ge> R\<close>): the transport is never
  called, the error thrown is \<^verbatim>\<open>'Request failed after max retries'\<close> and not one the
  transport threw, and the state is unchanged, so the number of rotations is not \<open>R - 1\<close>.
\<close>

theorem zero_retries_counterexample:
  "requestWithRetry (flakyEnv 0) (Some 0) exampleClient = Some (Inl RetriesExhausted, exampleClient)
   \<and> transport (flakyEnv 0) 0 DEFAULT_PROFILE = Inr okResponse
   \<and> int (rotations exampleClient) \<noteq> int (rotations exampleClient) + (0 - 1)"
  by (simp add: requestWithRetry_def requestLoop_past_bound flakyEnv_def)

text \<open>
  C3. \<^verbatim>\<open>requestWithRetry\<close> returns a response only when the classifier returned false
  for it, never one classified as a challenge. On a ready client, an attempt whose
  response is a challenge blocks the
  profile the request was sent under and calls \<^verbatim>\<open>rotateFingerprint()\<close> once (the blocked
  set afterwards holds that profile, unless the rotation found no profile available and
  cleared the set), and it does not return. If at least one attempt is made and the
  responses of all attempts up to the bound are challenges, the call throws
  \<^verbatim>\<open>'Cloudflare challenge - browser fallback required'\<close>.
\<close>

theorem challenge_never_returned:
  assumes "retries = (case maxRetriesArg of None \<Rightarrow> maxRetries (config c) | Some r \<Rightarrow> r)"
  shows "(\<forall>response c'. requestWithRetry env maxRetriesArg c = Some (Inr response, c')
            \<longrightarrow> isCloudflareChallenge (jsonStringify env) response = Inr False)
       \<and> (\<forall>attempt lastError response c1.
             ready c \<and> request env c = Some (Inr response, c1)
             \<and> isCloudflareChallenge (jsonStringify env) response = Inr True
             \<longrightarrow> (\<exists>c'. attemptOnce env retries attempt lastError c
                          = Some (Continue (if int attempt < retries then lastError
                                            else Some ChallengeFallback), c')
                       \<and> rotations c' = rotations c1 + 1
                       \<and> blockedProfiles (state (fingerprintManager c')) =
                           (if getAvailableProfiles
                                 (blockProfile (profileId (currentProfile c1)) (fingerprintManager c1)) = []
                            then {}
                            else insert (profileId (currentProfile c1))
                                   (blockedProfiles (state (fingerprintManager c1))))))
       \<and> (ready c \<and> 1 \<le> retries
           \<and> (\<forall>i<nat retries. \<forall>p. \<exists>raw. transport env (calls c + i) p = Inr raw
                  \<and> isCloudflareChallenge (jsonStringify env) (raw\<lparr>body := parseBody env (body raw)\<rparr>) = Inr True)
           \<longrightarrow> (\<exists>c'. requestWithRetry env maxRetriesArg c = Some (Inl ChallengeFallback, c')
                    \<and> rotations c' = rotations c + nat retries))"
proof (intro conjI allI impI)
  fix response c'
  assume "requestWithRetry env maxRetriesArg c = Some (Inr response, c')"
  then show "isCloudflareChallenge (jsonStringify env) response = Inr False"
    unfolding requestWithRetry_def by (rule requestLoop_no_challenge)
next
  fix attempt lastError response c1
  assume h: "ready c \<and> request env c = Some (Inr response, c1)
             \<and> isCloudflareChallenge (jsonStringify env) response = Inr True"
  then have rc: "ready c" and rq: "request env c = Some (Inr response, c1)"
    and ch: "isCloudflareChallenge (jsonStringify env) response = Inr True" by blast+
  obtain p c1' where "request env c
            = Some ((case transport env (calls c) p of
                       Inl e \<Rightarrow> Inl e
                     | Inr response \<Rightarrow> Inr (response\<lparr>body := parseBody env (body response)\<rparr>)), c1')"
    and s: "sameSetup c c1'"
    using request_ok[OF rc, of env] by blast
  then have "c1' = c1" using rq by simp
  then have rd: "ready c1" using s rc sameSetup_ready by blast
  from attemptOnce_challenge[OF rq ch rd, of retries attempt lastError]
  show "\<exists>c'. attemptOnce env retries attempt lastError c
                          = Some (Continue (if int attempt < retries then lastError
                                            else Some ChallengeFallback), c')
                       \<and> rotations c' = rotations c1 + 1
                       \<and> blockedProfiles (state (fingerprintManager c')) =
                           (if getAvailableProfiles
                                 (blockProfile (profileId (currentProfile c1)) (fingerprintManager c1)) = []
                            then {}
                            else insert (profileId (currentProfile c1))
                                   (blockedProfiles (state (fingerprintManager c1))))"
    by blast
next
  assume h: "ready c \<and> 1 \<le> retries
           \<and> (\<forall>i<nat retries. \<forall>p. \<exists>raw. transport env (calls c + i) p = Inr raw
                  \<and> isCloudflareChallenge (jsonStringify env) (raw\<lparr>body := parseBody env (body raw)\<rparr>) = Inr True)"
  then have rc: "ready c" and r1: "1 \<le> retries"
    and all: "\<forall>i<nat retries. \<forall>p. \<exists>raw. transport env (calls c + i) p = Inr raw
                  \<and> isCloudflareChallenge (jsonStringify env) (raw\<lparr>body := parseBody env (body raw)\<rparr>) = Inr True"
    by blast+
  have b1: "int (1::nat) \<le> retries" using r1 by simp
  define n where "n = nat (retries - int (1::nat))"
  have n1: "n + 1 = nat retries" using r1 by (simp add: n_def)
  have f: "\<forall>i\<le>n. \<forall>p. \<exists>raw. transport env (calls c + i) p = Inr raw
                  \<and> isCloudflareChallenge (jsonStringify env) (raw\<lparr>body := parseBody env (body raw)\<rparr>) = Inr True"
  proof (intro allI impI)
    fix i p assume "i \<le> n"
    then have "i < nat retries" using n1 by simp
    then show "\<exists>raw. transport env (calls c + i) p = Inr raw
                  \<and> isCloudflareChallenge (jsonStringify env) (raw\<lparr>body := parseBody env (body raw)\<rparr>) = Inr True"
      using all by blast
  qed
  obtain c' where "requestLoop env retries 1 None c = Some (Inl ChallengeFallback, c')"
      "rotations c' = rotations c + n + 1"
    using requestLoop_escalates[OF rc b1 n_def f, of None] by blast
  then show "\<exists>c'. requestWithRetry env maxRetriesArg c = Some (Inl ChallengeFallback, c')
                    \<and> rotations c' = rotations c + nat retries"
    using assms n1 by (simp add: requestWithRetry_def)
qed

theorem challenge_never_returned_witness:
  "(\<exists>c'. requestWithRetry blockedEnv None exampleClient = Some (Inl ChallengeFallback, c')
         \<and> rotations c' = 3)
   \<and> (\<exists>c'. attemptOnce blockedEnv 3 1 None exampleClient = Some (Continue None, c')
         \<and> rotations c' = 1
         \<and> blockedProfiles (state (fingerprintManager c')) = {''pixel8-chrome130''})
   \<and> isCloudflareChallenge (jsonStringify (flakyEnv 0)) okResponse = Inr False"
proof -
  have ch: "\<forall>i<nat 3. \<forall>p. \<exists>raw. transport blockedEnv (calls exampleClient + i) p = Inr raw
              \<and> isCloudflareChallenge (jsonStringify blockedEnv)
                   (raw\<lparr>body := parseBody blockedEnv (body raw)\<rparr>) = Inr True"
    by (simp add: blockedEnv_def challenge_is_challenge)
  have c2: "isCloudflareChallenge (jsonStringify blockedEnv) challengeResponse = Inr True"
    using challenge_is_challenge[of "jsonStringify blockedEnv" "body challengeResponse"] by simp
  have ok: "requestWithRetry (flakyEnv 0) (Some 1) exampleClient
              = Some (Inr okResponse, exampleClient\<lparr>logged := [DebugRequest ''pixel8-chrome130''], calls := 1\<rparr>)"
    by (simp add: requestWithRetry_def requestLoop.simps[of _ _ 1] attemptOnce_def request_def
          flakyEnv_def exampleClient_def parseBody_def okResponse_def isCloudflareChallenge_def
          DEFAULT_PROFILE_def Let_def)
  have av: "getAvailableProfiles (blockProfile (profileId (currentProfile
               (exampleClient\<lparr>logged := [DebugRequest ''pixel8-chrome130''], calls := 1\<rparr>)))
               (fingerprintManager (exampleClient\<lparr>logged := [DebugRequest ''pixel8-chrome130''], calls := 1\<rparr>)))
            \<noteq> []"
    using available_after_block_example by (simp add: exampleClient_def DEFAULT_PROFILE_def)
  have bl: "blockedProfiles (state (fingerprintManager exampleClient)) = {}"
    by (simp add: exampleClient_def newFingerprintManager_def)
  have r3: "(3::int) = (case None of None \<Rightarrow> maxRetries (config exampleClient) | Some r \<Rightarrow> r)"
    by simp
  have r1: "(1::int) = (case Some 1 of None \<Rightarrow> maxRetries (config exampleClient) | Some r \<Rightarrow> r)"
    by simp
  note T3 = challenge_never_returned[OF r3, of blockedEnv]
  note T1 = challenge_never_returned[OF r1, of "flakyEnv 0"]
  have first: "\<exists>c'. requestWithRetry blockedEnv None exampleClient = Some (Inl ChallengeFallback, c')
         \<and> rotations c' = 3"
    using T3[THEN conjunct2, THEN conjunct2] ch ready_exampleClient by simp
  have second: "\<exists>c'. attemptOnce blockedEnv 3 1 None exampleClient = Some (Continue None, c')
         \<and> rotations c' = 1
         \<and> blockedProfiles (state (fingerprintManager c')) = {''pixel8-chrome130''}"
    using T3[THEN conjunct2, THEN conjunct1, rule_format,
             OF conjI[OF ready_exampleClient conjI[OF request_blocked_example c2]], of 1 None] av bl
    by (simp add: DEFAULT_PROFILE_def rotations_def)
  have third: "isCloudflareChallenge (jsonStringify (flakyEnv 0)) okResponse = Inr False"
    using T1[THEN conjunct1, rule_format, OF ok] .
  show ?thesis using first second third by blast
qed

section \<open>The challenge classifier\<close>

lemma str_includes_sublist: "str_includes s n \<longleftrightarrow> sublist n s"
proof (induction s)
  case Nil
  then show ?case by auto
next
  case (Cons c cs)
  have "str_includes (c # cs) n \<longleftrightarrow> prefix n (c # cs) \<or> sublist n cs"
    using Cons.IH by simp
  then show ?case by (simp only: sublist_Cons_right)
qed

text \<open>
  C2. \<^verbatim>\<open>isCloudflareChallenge\<close> returns true exactly when the status is 403 or 503 and
  either a marker header is present (a non-empty \<^verbatim>\<open>cf-ray\<close>, or a \<^verbatim>\<open>server\<close> header
  naming cloudflare in any letter case) or the text of the body contains one of the three
  challenge-page substrings. So a response with status 503 and a \<^verbatim>\<open>cf-ray\<close> header is a
  challenge, and any response with its status replaced by 200 is classified as not a
  challenge.
\<close>

theorem challenge_signature:
  "(isCloudflareChallenge stringify r = Inr True \<longleftrightarrow>
      (status r = 403 \<or> status r = 503)
      \<and> ((\<exists>v. headers r ''cf-ray'' = Some v \<and> v \<noteq> [])
         \<or> (\<exists>s. headers r ''server'' = Some s \<and> sublist ''cloudflare'' (toLowerCase s))
         \<or> (\<exists>bodyStr. (case body r of StringBody s \<Rightarrow> Some s | ValueBody v \<Rightarrow> stringify v)
                         = Some bodyStr
              \<and> (\<exists>needle \<in> {''challenge-platform'', ''cf-browser-verification'', ''Just a moment''}.
                    sublist needle bodyStr))))
   \<and> (status r = 503 \<and> (\<exists>v. headers r ''cf-ray'' = Some v \<and> v \<noteq> [])
        \<longrightarrow> isCloudflareChallenge stringify r = Inr True)
   \<and> isCloudflareChallenge stringify (r\<lparr>status := 200\<rparr>) = Inr False"
  by (auto simp: isCloudflareChallenge_def Let_def str_includes_sublist split: option.splits)

theorem challenge_signature_witness:
  "isCloudflareChallenge (\<lambda>u::unit. Some ''null'') challengeResponse = Inr True
   \<and> isCloudflareChallenge (\<lambda>u::unit. Some ''null'') (challengeResponse\<lparr>status := 200\<rparr>) = Inr False
   \<and> status challengeResponse = 503
   \<and> headers challengeResponse ''cf-ray'' = Some ''8a1b2c3d4e5f-FRA''"
  using challenge_signature[of "\<lambda>u::unit. Some ''null''" challengeResponse]
  by (simp add: challengeResponse_def)

section \<open>Token validity and expiry tracking\<close>

text \<open>
  C7. With \<open>tokenInfo\<close> present, \<open>isTokenValid\<close> holds exactly when
  \<open>now < expiresAt - buffer\<close>: it is false at the boundary \<open>now = expiresAt - buffer\<close>
  and true strictly below it. With \<open>tokenInfo\<close> absent it is false, whatever the
  buffer and the time.
\<close>

theorem isTokenValid_boundary:
  "(tokenInfo st = Some ti \<longrightarrow>
      (isTokenValid now bufferMs st \<longleftrightarrow> now < expiresAt ti - bufferMs)
      \<and> \<not> isTokenValid (expiresAt ti - bufferMs) bufferMs st
      \<and> (now < expiresAt ti - bufferMs \<longrightarrow> isTokenValid now bufferMs st))
   \<and> (tokenInfo st = None \<longrightarrow> \<not> isTokenValid now bufferMs st)"
  by (simp add: isTokenValid_def)

theorem isTokenValid_boundary_witness:
  "isTokenValid 39999 60000
      \<lparr> sid = Some ''s'', currentToken = Some ''t'',
        tokenInfo = Some \<lparr> jwt = ''t'', expiresAt = 100000 \<rparr>,
        deviceId = ''d'', cookies = Map.empty \<rparr>
   \<and> \<not> isTokenValid 40000 60000
      \<lparr> sid = Some ''s'', currentToken = Some ''t'',
        tokenInfo = Some \<lparr> jwt = ''t'', expiresAt = 100000 \<rparr>,
        deviceId = ''d'', cookies = Map.empty \<rparr>
   \<and> \<not> isTokenValid 0 60000
      \<lparr> sid = Some ''s'', currentToken = None, tokenInfo = None,
        deviceId = ''d'', cookies = Map.empty \<rparr>"
  using isTokenValid_boundary
          [of "\<lparr> sid = Some ''s'', currentToken = Some ''t'',
                 tokenInfo = Some \<lparr> jwt = ''t'', expiresAt = 100000 \<rparr>,
                 deviceId = ''d'', cookies = Map.empty \<rparr>"
              "\<lparr> jwt = ''t'', expiresAt = 100000 \<rparr>" 39999 60000]
        isTokenValid_boundary
          [of "\<lparr> sid = Some ''s'', currentToken = None, tokenInfo = None,
                 deviceId = ''d'', cookies = Map.empty \<rparr>"
              "\<lparr> jwt = ''t'', expiresAt = 100000 \<rparr>" 0 60000]
  by simp

text \<open>
  A first token whose expiry claim does not decode leaves the session without
  \<open>tokenInfo\<close>, and \<open>isTokenValid\<close> is false.
\<close>

lemma undecodable_first_token_invalid:
  assumes "tokenInfo st = None"
    and "jwtDecode token = DecodeThrows \<or> jwtDecode token = DecodedNull
         \<or> jwtDecode token = DecodedPayload None \<or> jwtDecode token = DecodedPayload (Some 0)"
  shows "\<not> isTokenValid now bufferMs (setToken jwtDecode token st)"
  using assms by (auto simp: setToken_def trackExpiry_def isTokenValid_def)

text \<open>
  C5 fails on the code. When the expiry claim of a newly installed token does not decode,
  \<^verbatim>\<open>setToken\<close> and \<^verbatim>\<open>refreshToken\<close> leave \<open>tokenInfo\<close> as it was: the expiry of the
  earlier token stays in force. At a session whose earlier token expires in an hour,
  after \<^verbatim>\<open>setToken\<close> of an undecodable token, \<open>isTokenValid\<close> is true and a refresh that is
  not forced returns the undecodable token without posting to the token endpoint; after
  a forced refresh that issued an undecodable token the same stale expiry remains.
\<close>

theorem undecodable_token_keeps_old_expiry:
  "setToken neverDecodes ''opaque'' staleSession = staleSession\<lparr>currentToken := Some ''opaque''\<rparr>
   \<and> tokenInfo (staleSession\<lparr>currentToken := Some ''opaque''\<rparr>)
       = Some \<lparr> jwt = ''old'', expiresAt = 3600000 \<rparr>
   \<and> isTokenValid 0 60000 (staleSession\<lparr>currentToken := Some ''opaque''\<rparr>)
   \<and> refreshToken neverDecodes (alwaysIssues ''fresh'') False 0
        \<lparr> session = staleSession\<lparr>currentToken := Some ''opaque''\<rparr>,
          onTokenRefresh = False, notified = [], fetches = 0 \<rparr>
       = (Inr (Some ''opaque''),
          \<lparr> session = staleSession\<lparr>currentToken := Some ''opaque''\<rparr>,
            onTokenRefresh = False, notified = [], fetches = 0 \<rparr>)
   \<and> refreshToken neverDecodes (alwaysIssues ''opaque'') True 0
        \<lparr> session = staleSession, onTokenRefresh = False, notified = [], fetches = 0 \<rparr>
       = (Inr (Some ''opaque''),
          \<lparr> session = staleSession\<lparr>currentToken := Some ''opaque''\<rparr>,
            onTokenRefresh = False, notified = [], fetches = 1 \<rparr>)"
  by (simp add: setToken_def trackExpiry_def staleSession_def isTokenValid_def refreshToken_def
                neverDecodes_def alwaysIssues_def Let_def)

section \<open>The instance cache\<close>

lemma cacheInv_empty: "cacheInv emptyWorld"
  by (simp add: cacheInv_def emptyWorld_def)

lemma cacheInv_cached:
  "cacheInv w \<Longrightarrow> cache w k = Some p \<Longrightarrow>
     p < length (promises w) \<and> key (promises w ! p) = k
     \<and> (resumed (promises w ! p) \<longrightarrow> (\<exists>i. outcome (promises w ! p) = Fulfilled i))"
  unfolding cacheInv_def by blast

lemma cacheInv_waiting:
  "cacheInv w \<Longrightarrow> p < length (promises w) \<Longrightarrow> \<not> resumed (promises w ! p) \<Longrightarrow>
     cache w (key (promises w ! p)) = Some p"
  unfolding cacheInv_def by blast

lemma cacheInv_resumed:
  "cacheInv w \<Longrightarrow> p < length (promises w) \<Longrightarrow> resumed (promises w ! p) \<Longrightarrow>
     outcome (promises w ! p) \<noteq> Pending"
  unfolding cacheInv_def by blast

lemma cacheInv_enter:
  assumes "cacheInv w"
  shows "cacheInv (snd (sunoApi_enter envCookie cfg w))"
proof (cases "resolveCookie envCookie cfg")
  case None
  then show ?thesis using assms by (simp add: sunoApi_enter_def)
next
  case (Some rc)
  show ?thesis
  proof (cases "rc = []")
    case True
    then show ?thesis using assms Some by (simp add: sunoApi_enter_def)
  next
    case False
    let ?k = "cacheKey rc cfg"
    show ?thesis
    proof (cases "cache w ?k")
      case (Some p)
      then show ?thesis using assms \<open>resolveCookie envCookie cfg = Some rc\<close> False
        by (simp add: sunoApi_enter_def Let_def)
    next
      case None
      let ?n = "length (promises w)"
      let ?w' = "w\<lparr>promises := promises w @ [\<lparr> key = ?k, outcome = Pending, resumed = False \<rparr>],
                     cache := (cache w)(?k \<mapsto> ?n)\<rparr>"
      have e: "snd (sunoApi_enter envCookie cfg w) = ?w'"
        using None \<open>resolveCookie envCookie cfg = Some rc\<close> False
        by (simp add: sunoApi_enter_def Let_def)
      have nokey: "\<And>p. p < ?n \<Longrightarrow> \<not> resumed (promises w ! p) \<Longrightarrow> key (promises w ! p) \<noteq> ?k"
        using cacheInv_waiting[OF assms] None by force
      have "cacheInv ?w'"
        unfolding cacheInv_def
      proof (intro conjI allI impI)
        fix k p assume c: "cache ?w' k = Some p"
        have d: "(k = ?k \<and> p = ?n) \<or> (k \<noteq> ?k \<and> cache w k = Some p)"
          using c by (simp split: if_splits)
        show "p < length (promises ?w')"
          using d cacheInv_cached[OF assms, of k p] by auto
        show "key (promises ?w' ! p) = k"
          using d cacheInv_cached[OF assms, of k p] by (auto simp: nth_append)
        assume "resumed (promises ?w' ! p)"
        then show "\<exists>i. outcome (promises ?w' ! p) = Fulfilled i"
          using d cacheInv_cached[OF assms, of k p] by (auto simp: nth_append)
      next
        fix p assume p: "p < length (promises ?w')" "\<not> resumed (promises ?w' ! p)"
        show "cache ?w' (key (promises ?w' ! p)) = Some p"
        proof (cases "p < ?n")
          case True
          then have "key (promises w ! p) \<noteq> ?k" using nokey p(2) by (simp add: nth_append)
          moreover have "cache w (key (promises w ! p)) = Some p"
            using cacheInv_waiting[OF assms True] True p(2) by (simp add: nth_append)
          ultimately show ?thesis using True by (simp add: nth_append)
        next
          case False
          then have "p = ?n" using p(1) by simp
          then show ?thesis by simp
        qed
      next
        fix p assume "p < length (promises ?w')" "resumed (promises ?w' ! p)"
        then show "outcome (promises ?w' ! p) \<noteq> Pending"
          using cacheInv_resumed[OF assms, of p] by (cases "p < ?n") (auto simp: nth_append)
      qed
      then show ?thesis using e by simp
    qed
  qed
qed

lemma cacheInv_settle:
  assumes "cacheInv w" and "settle p r w = Some w'"
  shows "cacheInv w'"
proof -
  have p: "p < length (promises w)" "outcome (promises w ! p) = Pending"
    and w': "w' = w\<lparr>promises := (promises w)[p := (promises w ! p)
                  \<lparr>outcome := (case r of Inl e \<Rightarrow> Rejected e | Inr i \<Rightarrow> Fulfilled i)\<rparr>]\<rparr>"
    using assms(2) by (auto simp: settle_def split: if_splits)
  have nr: "\<not> resumed (promises w ! p)" using cacheInv_resumed[OF assms(1) p(1)] p(2) by blast
  show ?thesis
    unfolding cacheInv_def w'
  proof (intro conjI allI impI, goal_cases)
    case (1 k q) then show ?case using cacheInv_cached[OF assms(1), of k q] by simp
  next
    case (2 k q) then show ?case using cacheInv_cached[OF assms(1), of k q]
      by (cases "q = p") (simp_all add: nth_list_update)
  next
    case (3 k q) then show ?case using cacheInv_cached[OF assms(1), of k q] nr
      by (cases "q = p") (simp_all add: nth_list_update)
  next
    case (4 q) then show ?case using cacheInv_waiting[OF assms(1), of q]
      by (cases "q = p") (simp_all add: nth_list_update)
  next
    case (5 q) then show ?case using cacheInv_resumed[OF assms(1), of q] nr
      by (cases "q = p") (simp_all add: nth_list_update)
  qed
qed

lemma cacheInv_resume:
  assumes "cacheInv w" and "sunoApi_resume p w = Some (r, w')"
  shows "cacheInv w'"
proof -
  have p: "p < length (promises w)" "\<not> resumed (promises w ! p)"
    using assms(2) by (auto simp: sunoApi_resume_def split: if_splits)
  have cp: "cache w (key (promises w ! p)) = Some p" by (rule cacheInv_waiting[OF assms(1) p])
  let ?ps = "(promises w)[p := (promises w ! p)\<lparr>resumed := True\<rparr>]"
  show ?thesis
  proof (cases "outcome (promises w ! p)")
    case Pending
    then show ?thesis using assms(2) p by (simp add: sunoApi_resume_def Let_def)
  next
    case (Fulfilled i)
    then have w': "w' = w\<lparr>promises := ?ps\<rparr>"
      using assms(2) p by (simp add: sunoApi_resume_def Let_def)
    show ?thesis unfolding cacheInv_def w'
    proof (intro conjI allI impI, goal_cases)
      case (1 k q) then show ?case using cacheInv_cached[OF assms(1), of k q] by simp
    next
      case (2 k q) then show ?case using cacheInv_cached[OF assms(1), of k q]
        by (cases "q = p") (simp_all add: nth_list_update)
    next
      case (3 k q) then show ?case using cacheInv_cached[OF assms(1), of k q] Fulfilled
        by (cases "q = p") (simp_all add: nth_list_update)
    next
      case (4 q) then show ?case using cacheInv_waiting[OF assms(1), of q]
        by (cases "q = p") (simp_all add: nth_list_update)
    next
      case (5 q) then show ?case using cacheInv_resumed[OF assms(1), of q] Fulfilled
        by (cases "q = p") (simp_all add: nth_list_update)
    qed
  next
    case (Rejected e)
    then have w': "w' = w\<lparr>promises := ?ps, cache := (cache w)(key (promises w ! p) := None)\<rparr>"
      using assms(2) p by (simp add: sunoApi_resume_def Let_def)
    show ?thesis unfolding cacheInv_def w'
    proof (intro conjI allI impI, goal_cases)
      case (1 k q)
      then have "cache w k = Some q" by (simp split: if_splits)
      then show ?case using cacheInv_cached[OF assms(1), of k q] by simp
    next
      case (2 k q)
      then have c: "cache w k = Some q" "k \<noteq> key (promises w ! p)" by (simp_all split: if_splits)
      then show ?case using cacheInv_cached[OF assms(1), of k q]
        by (cases "q = p") (simp_all add: nth_list_update)
    next
      case (3 k q)
      then have c: "cache w k = Some q" "k \<noteq> key (promises w ! p)" by (simp_all split: if_splits)
      then have "q \<noteq> p" using cacheInv_cached[OF assms(1), of k q] by auto
      then show ?case using 3 c cacheInv_cached[OF assms(1), of k q]
        by (simp add: nth_list_update)
    next
      case (4 q)
      then have q: "q < length (promises w)" "q \<noteq> p" "\<not> resumed (promises w ! q)"
        using p(1) by (cases "q = p", simp_all add: nth_list_update)+
      have cq: "cache w (key (promises w ! q)) = Some q" by (rule cacheInv_waiting[OF assms(1) q(1,3)])
      have "key (promises w ! q) \<noteq> key (promises w ! p)" using cq cp q(2) by auto
      then show ?case using cq q by (simp add: nth_list_update)
    next
      case (5 q) then show ?case using cacheInv_resumed[OF assms(1), of q] Rejected
        by (cases "q = p") (simp_all add: nth_list_update)
    qed
  qed
qed

lemma cacheInv_step:
  assumes "cacheInv w" and "step ev w = Some w'" and "ev \<noteq> Clear"
  shows "cacheInv w'"
proof (cases ev)
  case (Enter envCookie cfg)
  then show ?thesis using assms cacheInv_enter[OF assms(1), of envCookie cfg] by simp
next
  case (Settle p r)
  then show ?thesis using assms cacheInv_settle by simp
next
  case (Resume p)
  then obtain y where "sunoApi_resume p w = Some y" "w' = snd y" using assms(2) by auto
  then show ?thesis using cacheInv_resume[OF assms(1), of p "fst y" "snd y"] by simp
next
  case Clear
  then show ?thesis using assms(3) by simp
qed

lemma cacheInv_run:
  "cacheInv w \<Longrightarrow> run evs w = Some w' \<Longrightarrow> Clear \<notin> set evs \<Longrightarrow> cacheInv w'"
proof (induction evs arbitrary: w)
  case Nil
  then show ?case by simp
next
  case (Cons ev evs)
  then obtain w1 where s: "step ev w = Some w1" "run evs w1 = Some w'" by (auto split: option.splits)
  have "ev \<noteq> Clear" "Clear \<notin> set evs" using Cons.prems(3) by auto
  then show ?case using Cons.IH s cacheInv_step[OF Cons.prems(1) s(1)] by blast
qed

lemma enter_cached:
  "resolveCookie envCookie cfg = Some rc \<Longrightarrow> rc \<noteq> [] \<Longrightarrow> cache w (cacheKey rc cfg) = Some p \<Longrightarrow>
   sunoApi_enter envCookie cfg w = (Returned p, w)"
  by (simp add: sunoApi_enter_def Let_def)

lemma enter_missing:
  "resolveCookie envCookie cfg = Some rc \<Longrightarrow> rc \<noteq> [] \<Longrightarrow> cache w (cacheKey rc cfg) = None \<Longrightarrow>
   sunoApi_enter envCookie cfg w
     = (Awaiting (cacheKey rc cfg) (length (promises w)),
        w\<lparr>promises := promises w @ [\<lparr> key = cacheKey rc cfg, outcome = Pending, resumed = False \<rparr>],
          cache := (cache w)(cacheKey rc cfg \<mapsto> length (promises w))\<rparr>)"
  by (simp add: sunoApi_enter_def Let_def)

lemma resume_rejected:
  assumes "sunoApi_resume p w = Some (Inl e, w')"
  shows "cache w' (key (promises w ! p)) = None \<and> outcome (promises w ! p) = Rejected e"
  using assms
  by (cases "outcome (promises w ! p)")
     (auto simp: sunoApi_resume_def Let_def split: if_splits)

lemma exampleConfig_key:
  "resolveCookie None exampleConfig = Some ''__client=abc''"
  "cacheKey ''__client=abc'' exampleConfig = ''__client=abc:no-proxy''"
  by (simp_all add: resolveCookie_def cacheKey_def exampleConfig_def)

lemma run_inFlight: "run [Enter None exampleConfig] emptyWorld = Some inFlightWorld"
  by (simp add: sunoApi_enter_def exampleConfig_key emptyWorld_def inFlightWorld_def Let_def)

lemma run_failed:
  "run [Enter None exampleConfig, Enter None exampleConfig, Settle 0 (Inl (InitError ''no session''))]
     emptyWorld = Some failedWorld"
  by (simp add: sunoApi_enter_def exampleConfig_key emptyWorld_def failedWorld_def settle_def Let_def)

lemma resume_failed:
  "sunoApi_resume 0 failedWorld = Some (Inl (InitError ''no session''), evictedWorld)"
  by (simp add: sunoApi_resume_def failedWorld_def evictedWorld_def Let_def)

text \<open>
  C10, as amended. In every state of the cache reached by calls of \<^verbatim>\<open>sunoApi\<close>,
  initialisations finishing and suspended calls continuing, in any order, the cache not
  being cleared by \<^verbatim>\<open>clearSunoApiCache\<close> meanwhile: at most one initialisation per key is
  pending; a call whose key has a pending initialisation returns that same promise and
  starts nothing; and when the call that started an initialisation continues with its
  rejection, the key is gone from the cache when the error is thrown, so that the next
  call with that key starts a new initialisation.
\<close>

theorem cache_shared_in_flight_and_atomic_on_error:
  assumes "run evs emptyWorld = Some w" and "Clear \<notin> set evs"
  shows "(\<forall>p q. p < length (promises w) \<and> q < length (promises w)
            \<and> outcome (promises w ! p) = Pending \<and> outcome (promises w ! q) = Pending
            \<and> key (promises w ! p) = key (promises w ! q) \<longrightarrow> p = q)
       \<and> (\<forall>p envCookie cfg rc. p < length (promises w) \<and> outcome (promises w ! p) = Pending
            \<and> resolveCookie envCookie cfg = Some rc \<and> rc \<noteq> []
            \<and> cacheKey rc cfg = key (promises w ! p)
            \<longrightarrow> sunoApi_enter envCookie cfg w = (Returned p, w))
       \<and> (\<forall>p e w' envCookie cfg rc. sunoApi_resume p w = Some (Inl e, w')
            \<and> resolveCookie envCookie cfg = Some rc \<and> rc \<noteq> []
            \<and> cacheKey rc cfg = key (promises w ! p)
            \<longrightarrow> cache w' (cacheKey rc cfg) = None
              \<and> sunoApi_enter envCookie cfg w'
                  = (Awaiting (cacheKey rc cfg) (length (promises w')),
                     w'\<lparr>promises := promises w'
                           @ [\<lparr> key = cacheKey rc cfg, outcome = Pending, resumed = False \<rparr>],
                        cache := (cache w')(cacheKey rc cfg \<mapsto> length (promises w'))\<rparr>))"
proof -
  have inv: "cacheInv w" using cacheInv_run[OF cacheInv_empty assms] .
  have pend: "cache w (key (promises w ! p)) = Some p"
    if "p < length (promises w)" "outcome (promises w ! p) = Pending" for p
  proof -
    have "\<not> resumed (promises w ! p)" using cacheInv_resumed[OF inv that(1)] that(2) by blast
    then show ?thesis by (rule cacheInv_waiting[OF inv that(1)])
  qed
  show ?thesis
  proof (intro conjI allI impI)
    fix p q
    assume h: "p < length (promises w) \<and> q < length (promises w)
            \<and> outcome (promises w ! p) = Pending \<and> outcome (promises w ! q) = Pending
            \<and> key (promises w ! p) = key (promises w ! q)"
    have hp: "p < length (promises w)" "outcome (promises w ! p) = Pending"
      and hq: "q < length (promises w)" "outcome (promises w ! q) = Pending"
      and hk: "key (promises w ! p) = key (promises w ! q)" using h by blast+
    have a: "cache w (key (promises w ! q)) = Some p" using pend[OF hp] unfolding hk .
    have b: "cache w (key (promises w ! q)) = Some q" by (rule pend[OF hq])
    have "Some p = Some q" by (rule trans[OF sym[OF a] b])
    then show "p = q" by blast
  next
    fix p envCookie cfg rc
    assume h: "p < length (promises w) \<and> outcome (promises w ! p) = Pending
            \<and> resolveCookie envCookie cfg = Some rc \<and> rc \<noteq> []
            \<and> cacheKey rc cfg = key (promises w ! p)"
    have hp: "p < length (promises w)" "outcome (promises w ! p) = Pending"
      and r: "resolveCookie envCookie cfg = Some rc" "rc \<noteq> []"
      and k: "cacheKey rc cfg = key (promises w ! p)" using h by blast+
    have "cache w (cacheKey rc cfg) = Some p" using pend[OF hp] k by simp
    then show "sunoApi_enter envCookie cfg w = (Returned p, w)"
      by (rule enter_cached[OF r])
  next
    fix p e w' envCookie cfg rc
    assume h: "sunoApi_resume p w = Some (Inl e, w')
            \<and> resolveCookie envCookie cfg = Some rc \<and> rc \<noteq> []
            \<and> cacheKey rc cfg = key (promises w ! p)"
    have rs: "sunoApi_resume p w = Some (Inl e, w')"
      and r: "resolveCookie envCookie cfg = Some rc" "rc \<noteq> []"
      and k: "cacheKey rc cfg = key (promises w ! p)" using h by blast+
    show c: "cache w' (cacheKey rc cfg) = None" using resume_rejected[OF rs] k by simp
    show "sunoApi_enter envCookie cfg w'
                  = (Awaiting (cacheKey rc cfg) (length (promises w')),
                     w'\<lparr>promises := promises w'
                           @ [\<lparr> key = cacheKey rc cfg, outcome = Pending, resumed = False \<rparr>],
                        cache := (cache w')(cacheKey rc cfg \<mapsto> length (promises w'))\<rparr>)"
      by (rule enter_missing[OF r c])
  qed
qed

theorem cache_shared_in_flight_and_atomic_on_error_witness:
  "run [Enter None exampleConfig] emptyWorld = Some inFlightWorld
   \<and> sunoApi_enter None exampleConfig inFlightWorld = (Returned 0, inFlightWorld)
   \<and> run [Enter None exampleConfig, Enter None exampleConfig, Settle 0 (Inl (InitError ''no session''))]
       emptyWorld = Some failedWorld
   \<and> sunoApi_resume 0 failedWorld = Some (Inl (InitError ''no session''), evictedWorld)
   \<and> cache evictedWorld ''__client=abc:no-proxy'' = None
   \<and> fst (sunoApi_enter None exampleConfig evictedWorld) = Awaiting ''__client=abc:no-proxy'' 1"
proof -
  have nc: "Clear \<notin> set [Enter None exampleConfig :: unit event]"
    "Clear \<notin> set [Enter None exampleConfig, Enter None exampleConfig,
                       Settle 0 (Inl (InitError ''no session'')) :: unit event]"
    by simp_all
  note A = cache_shared_in_flight_and_atomic_on_error[OF run_inFlight nc(1)]
  note B = cache_shared_in_flight_and_atomic_on_error[OF run_failed nc(2)]
  have pa: "0 < length (promises inFlightWorld) \<and> outcome (promises inFlightWorld ! 0) = Pending
            \<and> resolveCookie None exampleConfig = Some ''__client=abc'' \<and> ''__client=abc'' \<noteq> []
            \<and> cacheKey ''__client=abc'' exampleConfig = key (promises inFlightWorld ! 0)"
    by (simp add: exampleConfig_key inFlightWorld_def)
  have a: "sunoApi_enter None exampleConfig inFlightWorld = (Returned 0, inFlightWorld)"
    by (rule A[THEN conjunct2, THEN conjunct1, rule_format, OF pa])
  have pb: "sunoApi_resume 0 failedWorld = Some (Inl (InitError ''no session''), evictedWorld)
            \<and> resolveCookie None exampleConfig = Some ''__client=abc'' \<and> ''__client=abc'' \<noteq> []
            \<and> cacheKey ''__client=abc'' exampleConfig = key (promises failedWorld ! 0)"
    using resume_failed by (simp add: exampleConfig_key failedWorld_def)
  note b0 = B[THEN conjunct2, THEN conjunct2, rule_format, OF pb]
  have b1: "cache evictedWorld ''__client=abc:no-proxy'' = None"
    using b0[THEN conjunct1] by (simp only: exampleConfig_key)
  have b2: "fst (sunoApi_enter None exampleConfig evictedWorld) = Awaiting ''__client=abc:no-proxy'' 1"
    using b0[THEN conjunct2] by (simp add: exampleConfig_key evictedWorld_def)
  show ?thesis using run_inFlight run_failed resume_failed a b1 b2 by (intro conjI)
qed

text \<open>
  C10 as stated fails when \<^verbatim>\<open>clearSunoApiCache\<close> runs while an initialisation is pending:
  the next call with the same key misses the cache and starts a second initialisation, so
  that two calls with one key await two different pending promises.
\<close>

theorem cache_cleared_in_flight_counterexample:
  "sunoApi_enter None exampleConfig emptyWorld = (Awaiting ''__client=abc:no-proxy'' 0, inFlightWorld)
   \<and> sunoApi_enter None exampleConfig (clearSunoApiCache inFlightWorld)
       = (Awaiting ''__client=abc:no-proxy'' 1, twoInFlightWorld)
   \<and> run [Enter None exampleConfig, Clear, Enter None exampleConfig] emptyWorld = Some twoInFlightWorld
   \<and> outcome (promises twoInFlightWorld ! 0) = Pending
   \<and> outcome (promises twoInFlightWorld ! 1) = Pending
   \<and> key (promises twoInFlightWorld ! 0) = key (promises twoInFlightWorld ! 1)"
  by (simp add: sunoApi_enter_def exampleConfig_key emptyWorld_def inFlightWorld_def
                twoInFlightWorld_def clearSunoApiCache_def Let_def)

end
